theory Spec2Isabelle
  imports Main "HOL-Library.Word"
begin

unbundle bit_operations_syntax

section \<open>The fake HLML library (hack/fake_libhlml/fake_libhlml.c)\<close>

text \<open>
  A shallow embedding of the fake hardware-management library. The two global structures
  of the C file, \<open>main_struct\<close> and \<open>flow_control\<close>, and the event sets it allocates
  with \<open>calloc\<close> form one explicit state that every operation takes and returns.
  An \<open>assert\<close> that fails and an access through a pointer that is not valid are
  values of the type \<open>fault\<close>; a function that can reach one returns \<open>fault + 'a\<close>.
\<close>

subsection \<open>Constants of the C file\<close>

definition DEVICES_MAX :: nat where "DEVICES_MAX = 8"
definition FAKE_EVENTS_MAX :: nat where "FAKE_EVENTS_MAX = 8"
definition NAME_MAX :: nat where "NAME_MAX = 64"
definition SERIAL_MAX :: nat where "SERIAL_MAX = 64"

text \<open>The enumeration \<open>call_identity_t\<close> of fake\_hlml.h, by its values.\<close>

definition FAKE_INIT :: nat where "FAKE_INIT = 0"
definition FAKE_INIT_WITH_FLAGS :: nat where "FAKE_INIT_WITH_FLAGS = 1"
definition FAKE_SHUTDOWN :: nat where "FAKE_SHUTDOWN = 2"
definition FAKE_DEVICE_GET_COUNT :: nat where "FAKE_DEVICE_GET_COUNT = 3"
definition FAKE_DEVICE_GET_HANDLE_BY_PCI_BUS_ID :: nat where
  "FAKE_DEVICE_GET_HANDLE_BY_PCI_BUS_ID = 4"
definition FAKE_DEVICE_GET_HANDLE_BY_INDEX :: nat where
  "FAKE_DEVICE_GET_HANDLE_BY_INDEX = 5"
definition FAKE_DEVICE_GET_HANDLE_BY_UUID :: nat where
  "FAKE_DEVICE_GET_HANDLE_BY_UUID = 6"
definition FAKE_DEVICE_GET_NAME :: nat where "FAKE_DEVICE_GET_NAME = 7"
definition FAKE_DEVICE_GET_PCI_INFO :: nat where "FAKE_DEVICE_GET_PCI_INFO = 8"
definition FAKE_DEVICE_GET_SERIAL :: nat where "FAKE_DEVICE_GET_SERIAL = 9"
definition FAKE_DEVICE_REGISTER_EVENTS :: nat where "FAKE_DEVICE_REGISTER_EVENTS = 10"
definition FAKE_EVENT_SET_CREATE :: nat where "FAKE_EVENT_SET_CREATE = 11"
definition FAKE_EVENT_SET_FREE :: nat where "FAKE_EVENT_SET_FREE = 12"
definition FAKE_EVENT_SET_WAIT :: nat where "FAKE_EVENT_SET_WAIT = 13"
definition FAKE_CALL_IDENTITY_MAX :: nat where "FAKE_CALL_IDENTITY_MAX = 14"

subsection \<open>The vendor header hlml.h\<close>

text \<open>
  Modelled from the spec: the status enumeration \<open>hlml_return_t\<close> of the vendored
  header vendor/github.com/HabanaAI/gohlml/hlml.h, which is not among the sources. The
  spec (section 4.4) names the statuses Success, InvalidArgument, NotFound, Uninitialized,
  InsufficientSize, Timeout, NotSupported and OutOfMemory; the constructors carry the
  names the C file uses for them. \<open>HLML_SUCCESS\<close> is the value the C file also
  writes as \<open>false\<close> (the spec: reset clears the table "to all-success").
\<close>

datatype hlml_return =
    HLML_SUCCESS
  | HLML_ERROR_UNINITIALIZED
  | HLML_ERROR_INVALID_ARGUMENT
  | HLML_ERROR_NOT_SUPPORTED
  | HLML_ERROR_NOT_FOUND
  | HLML_ERROR_INSUFFICIENT_SIZE
  | HLML_ERROR_TIMEOUT
  | HLML_ERROR_MEMORY

text \<open>
  The two macros of hlml.h the C file uses and whose values the sources do not give are
  parameters of the model: the length of a PCI address buffer and the bit of a critical
  event in an event mask.
\<close>

record hlml_h =
  PCI_ADDR_LEN :: nat
  HLML_EVENT_CRITICAL_ERR :: "64 word"

subsection \<open>C strings\<close>

text \<open>
  A \<open>char\<close> array holds a string up to its first NUL; \<open>c_str\<close> is the string a
  \<open>const char *\<close> to the characters \<open>cs\<close> denotes. A stored array is modelled by the
  string it holds.
\<close>

definition NUL :: char where "NUL = CHR 0x00"

definition c_str :: "string \<Rightarrow> string" where
  "c_str cs = takeWhile (\<lambda>c. c \<noteq> NUL) cs"

text \<open>\<open>strcmp\<close> and \<open>strncmp\<close>: the difference of the first pair of characters that
  differ (as unsigned char), 0 when none does before a NUL, the end or \<open>n\<close> characters.\<close>

fun strcmp :: "string \<Rightarrow> string \<Rightarrow> int" where
  "strcmp [] [] = 0"
| "strcmp [] (y # ys) = - of_char y"
| "strcmp (x # xs) [] = of_char x"
| "strcmp (x # xs) (y # ys) =
     (if x \<noteq> y then of_char x - of_char y
      else if x = NUL then 0
      else strcmp xs ys)"

fun strncmp :: "string \<Rightarrow> string \<Rightarrow> nat \<Rightarrow> int" where
  "strncmp xs ys 0 = 0"
| "strncmp [] [] (Suc n) = 0"
| "strncmp [] (y # ys) (Suc n) = - of_char y"
| "strncmp (x # xs) [] (Suc n) = of_char x"
| "strncmp (x # xs) (y # ys) (Suc n) =
     (if x \<noteq> y then of_char x - of_char y
      else if x = NUL then 0
      else strncmp xs ys n)"

text \<open>\<open>snprintf(dst, size, "%s", src)\<close>: at most \<open>size - 1\<close> characters of the
  source string and a NUL; nothing is written when \<open>size\<close> is 0.\<close>

definition snprintf_s :: "string \<Rightarrow> nat \<Rightarrow> string \<Rightarrow> string" where
  "snprintf_s dst size' src = (if size' = 0 then dst else take (size' - 1) (c_str src))"

text \<open>\<open>strncpy(dst, src, n)\<close>: the first \<open>n\<close> characters of the source string
  (padded with NUL, so the destination then holds that string).\<close>

definition strncpy :: "string \<Rightarrow> string \<Rightarrow> nat \<Rightarrow> string" where
  "strncpy dst src n = (if n = 0 then dst else take n (c_str src))"

text \<open>
  \<open>sscanf(str, "%x", &field)\<close>: white space, an optional sign, an optional
  \<open>0x\<close> and then hexadecimal digits, stored as an \<open>unsigned int\<close> (here: reduced
  modulo \<open>2 ^ 32\<close>); when no digit is found nothing is stored and the field keeps its
  old value.
\<close>

definition isspace :: "char \<Rightarrow> bool" where
  "isspace c \<longleftrightarrow> (of_char c :: nat) = 32 \<or> (9 \<le> (of_char c :: nat) \<and> (of_char c :: nat) \<le> 13)"

definition hex_digit :: "char \<Rightarrow> nat option" where
  "hex_digit c =
     (let k = (of_char c :: nat) in
      if 48 \<le> k \<and> k \<le> 57 then Some (k - 48)
      else if 97 \<le> k \<and> k \<le> 102 then Some (k - 87)
      else if 65 \<le> k \<and> k \<le> 70 then Some (k - 55)
      else None)"

fun hex_value :: "nat \<Rightarrow> string \<Rightarrow> nat" where
  "hex_value acc [] = acc"
| "hex_value acc (c # cs) =
     (case hex_digit c of None \<Rightarrow> acc | Some d \<Rightarrow> hex_value (16 * acc + d) cs)"

definition skip_sign :: "string \<Rightarrow> bool \<times> string" where
  "skip_sign cs =
     (case cs of
        [] \<Rightarrow> (False, cs)
      | c # rest \<Rightarrow>
          if c = CHR ''-'' then (True, rest)
          else if c = CHR ''+'' then (False, rest)
          else (False, cs))"

definition skip_0x :: "string \<Rightarrow> string" where
  "skip_0x cs =
     (case cs of
        z # x # d # rest \<Rightarrow>
          if z = CHR ''0'' \<and> (x = CHR ''x'' \<or> x = CHR ''X'') \<and> hex_digit d \<noteq> None
          then d # rest else cs
      | _ \<Rightarrow> cs)"

definition sscanf_x :: "string \<Rightarrow> 32 word \<Rightarrow> 32 word" where
  "sscanf_x str old =
     (let (neg, cs) = skip_sign (dropWhile isspace (c_str str));
          ds = skip_0x cs
      in case ds of
           [] \<Rightarrow> old
         | c # _ \<Rightarrow>
             if hex_digit c = None then old
             else if neg then - word_of_nat (hex_value 0 ds)
             else word_of_nat (hex_value 0 ds))"

subsection \<open>The state\<close>

datatype fault = Assertion_failed | Out_of_bounds | Invalid_pointer

record device_info_t =
  pci_addr :: string
  device_id :: "32 word"
  vendor_id :: "32 word"
  serial :: string
  index :: "32 word"

record main_struct_t =
  initialized :: bool
  devices_num :: int
  devices_info :: "device_info_t list"

record flow_control_t =
  func_ret :: "hlml_return list"
  events :: "string list"
  events_num :: int

text \<open>
  A device handle \<open>hlml_device_t\<close> is a pointer into \<open>main_struct.devices_info\<close>:
  \<open>Some n\<close> is the address of element \<open>n\<close>, \<open>None\<close> is NULL. An event-set handle
  \<open>hlml_event_set_t\<close> is a pointer to an allocated \<open>hlml_event_set\<close>: \<open>Some a\<close> is
  the \<open>a\<close>-th allocation of the heap, which holds \<open>None\<close> once it has been freed.
\<close>

type_synonym hlml_device_t = "nat option"

type_synonym hlml_event_set_t = "nat option"

record hlml_device_events =
  device_info :: hlml_device_t

record hlml_event_set =
  dev_events :: "hlml_device_events list"

record hlml_event_data =
  device :: hlml_device_t
  event_type :: "64 word"

record hlml_pci_info_t =
  bus_id :: string
  pci_device_id :: "32 word"

record fake_state =
  main_struct :: main_struct_t
  flow_control :: flow_control_t
  heap :: "hlml_event_set option list"

text \<open>The globals of a C program start zeroed, and nothing is allocated.\<close>

definition zero_device :: device_info_t where
  "zero_device = \<lparr>pci_addr = [], device_id = 0, vendor_id = 0, serial = [], index = 0\<rparr>"

definition initial_state :: fake_state where
  "initial_state =
     \<lparr>main_struct =
        \<lparr>initialized = False, devices_num = 0,
         devices_info = replicate DEVICES_MAX zero_device\<rparr>,
      flow_control =
        \<lparr>func_ret = replicate FAKE_CALL_IDENTITY_MAX HLML_SUCCESS,
         events = replicate FAKE_EVENTS_MAX [],
         events_num = 0\<rparr>,
      heap = []\<rparr>"

text \<open>
  What the C types and the bounds of the arrays say of a state: the arrays have their
  declared sizes and the two counters stay within them.
\<close>

definition event_set_ok :: "hlml_event_set option \<Rightarrow> bool" where
  "event_set_ok e = (case e of None \<Rightarrow> True | Some es \<Rightarrow> length (dev_events es) = DEVICES_MAX)"

definition state_ok :: "fake_state \<Rightarrow> bool" where
  "state_ok s \<longleftrightarrow>
     length (devices_info (main_struct s)) = DEVICES_MAX \<and>
     0 \<le> devices_num (main_struct s) \<and> devices_num (main_struct s) \<le> int DEVICES_MAX \<and>
     length (func_ret (flow_control s)) = FAKE_CALL_IDENTITY_MAX \<and>
     length (events (flow_control s)) = FAKE_EVENTS_MAX \<and>
     0 \<le> events_num (flow_control s) \<and> events_num (flow_control s) \<le> int FAKE_EVENTS_MAX \<and>
     list_all event_set_ok (heap s)"

text \<open>The value \<open>flow_control.func_ret[call_id]\<close> that \<open>RETURN_IF_FAKE_ERROR\<close> reads.\<close>

definition forced :: "fake_state \<Rightarrow> nat \<Rightarrow> hlml_return" where
  "forced s call_id = func_ret (flow_control s) ! call_id"

text \<open>Following an event-set handle to the allocation it points to.\<close>

definition event_set_at :: "fake_state \<Rightarrow> nat \<Rightarrow> fault + hlml_event_set" where
  "event_set_at s a =
     (if a < length (heap s) then
        (case heap s ! a of None \<Rightarrow> Inl Invalid_pointer | Some es \<Rightarrow> Inr es)
      else Inl Invalid_pointer)"

subsection \<open>The test control plane\<close>

definition add_device ::
  "hlml_h \<Rightarrow> string option \<Rightarrow> string option \<Rightarrow> string option \<Rightarrow> string option \<Rightarrow> 32 word
     \<Rightarrow> fake_state \<Rightarrow> fault + fake_state" where
  "add_device h pci_addr' pci_device_id' pci_vendor_id' serial' index' s =
     (let m = main_struct s; n = devices_num m in
      if n < 0 \<or> int DEVICES_MAX \<le> n then Inl Out_of_bounds
      else
        (case pci_device_id' of
           None \<Rightarrow> Inl Invalid_pointer
         | Some device_hex \<Rightarrow>
        (case pci_vendor_id' of
           None \<Rightarrow> Inl Invalid_pointer
         | Some vendor_hex \<Rightarrow>
             let d = devices_info m ! nat n;
                 d = d\<lparr>pci_addr :=
                        (case pci_addr' of
                           Some a \<Rightarrow> snprintf_s (pci_addr d) (PCI_ADDR_LEN h) a
                         | None \<Rightarrow> [])\<rparr>;
                 d = d\<lparr>serial :=
                        (case serial' of
                           Some x \<Rightarrow> snprintf_s (serial d) SERIAL_MAX x
                         | None \<Rightarrow> [])\<rparr>;
                 d = d\<lparr>index := index'\<rparr>;
                 d = d\<lparr>device_id := sscanf_x device_hex (device_id d)\<rparr>;
                 d = d\<lparr>vendor_id := sscanf_x vendor_hex (vendor_id d)\<rparr>
             in Inr (s\<lparr>main_struct :=
                         m\<lparr>devices_info := (devices_info m)[nat n := d],
                           devices_num := n + 1\<rparr>\<rparr>))))"

definition reset :: "fake_state \<Rightarrow> fake_state" where
  "reset s =
     (let m = (main_struct s)\<lparr>initialized := False, devices_num := 0\<rparr>;
          fc = (flow_control s)\<lparr>events_num := 0\<rparr>;
          fc = fc\<lparr>func_ret :=
                   fold (\<lambda>call_id fr. fr[call_id := HLML_SUCCESS])
                     [0..<FAKE_CALL_IDENTITY_MAX] (func_ret fc)\<rparr>
      in s\<lparr>main_struct := m, flow_control := fc\<rparr>)"

definition add_critical_event :: "string option \<Rightarrow> fake_state \<Rightarrow> fault + fake_state" where
  "add_critical_event serial' s =
     (let fc = flow_control s; n = events_num fc in
      if n = int FAKE_EVENTS_MAX then Inr s
      else if n < 0 \<or> int FAKE_EVENTS_MAX < n then Inl Out_of_bounds
      else
        Inr (s\<lparr>flow_control :=
                 fc\<lparr>events :=
                      (events fc)
                        [nat n :=
                           (case serial' of
                              Some x \<Rightarrow> snprintf_s (events fc ! nat n) SERIAL_MAX x
                            | None \<Rightarrow> [])],
                    events_num := n + 1\<rparr>\<rparr>))"

definition reset_events :: "fake_state \<Rightarrow> fake_state" where
  "reset_events s = s\<lparr>flow_control := (flow_control s)\<lparr>events_num := 0\<rparr>\<rparr>"

definition set_error :: "nat \<Rightarrow> hlml_return \<Rightarrow> fake_state \<Rightarrow> fault + fake_state" where
  "set_error call_id errCode s =
     (if call_id < FAKE_CALL_IDENTITY_MAX then
        Inr (s\<lparr>flow_control :=
                 (flow_control s)\<lparr>func_ret := (func_ret (flow_control s))[call_id := errCode]\<rparr>\<rparr>)
      else Inl Assertion_failed)"

subsection \<open>The supported API\<close>

text \<open>
  An output parameter \<open>T *p\<close> is modelled by \<open>T option\<close>: \<open>None\<close> is the NULL
  pointer and \<open>Some v\<close> a pointer to a cell holding \<open>v\<close>; the function returns
  what the cell holds afterwards. Each function returns as soon as the C function does,
  and \<open>log_call\<close> (a \<open>printf\<close>) is left out.
\<close>

definition hlml_init_with_flags :: "32 word \<Rightarrow> fake_state \<Rightarrow> hlml_return \<times> fake_state" where
  "hlml_init_with_flags flags s =
     (if forced s FAKE_INIT_WITH_FLAGS \<noteq> HLML_SUCCESS then (forced s FAKE_INIT_WITH_FLAGS, s)
      else (HLML_SUCCESS, s\<lparr>main_struct := (main_struct s)\<lparr>initialized := True\<rparr>\<rparr>))"

definition hlml_init :: "fake_state \<Rightarrow> hlml_return \<times> fake_state" where
  "hlml_init s =
     (if forced s FAKE_INIT \<noteq> HLML_SUCCESS then (forced s FAKE_INIT, s)
      else hlml_init_with_flags 0 s)"

definition hlml_shutdown :: "fake_state \<Rightarrow> hlml_return \<times> fake_state" where
  "hlml_shutdown s =
     (if forced s FAKE_SHUTDOWN \<noteq> HLML_SUCCESS then (forced s FAKE_SHUTDOWN, s)
      else (HLML_SUCCESS, s\<lparr>main_struct := (main_struct s)\<lparr>initialized := False\<rparr>\<rparr>))"

definition hlml_device_get_count ::
  "32 word option \<Rightarrow> fake_state \<Rightarrow> hlml_return \<times> 32 word option" where
  "hlml_device_get_count device_count s =
     (if forced s FAKE_DEVICE_GET_COUNT \<noteq> HLML_SUCCESS
      then (forced s FAKE_DEVICE_GET_COUNT, device_count)
      else if device_count = None then (HLML_ERROR_INVALID_ARGUMENT, device_count)
      else (HLML_SUCCESS, Some (word_of_int (devices_num (main_struct s)))))"

text \<open>The loop of \<open>hlml_device_get_handle_by_pci_bus_id\<close>, from \<open>n\<close> on: the element
  it returns the address of, if it returns one.\<close>

function pci_bus_id_loop :: "hlml_h \<Rightarrow> string \<Rightarrow> main_struct_t \<Rightarrow> int \<Rightarrow> nat option" where
  "pci_bus_id_loop h pci_addr' m n =
     (if n < devices_num m then
        (if strncmp pci_addr' (pci_addr (devices_info m ! nat n)) (PCI_ADDR_LEN h) \<noteq> 0
         then Some (nat n)
         else pci_bus_id_loop h pci_addr' m (n + 1))
      else None)"
  by pat_completeness auto
termination
  by (relation "measure (\<lambda>(h, pci_addr', m, n). nat (devices_num m - n))") auto

declare pci_bus_id_loop.simps [simp del]

definition hlml_device_get_handle_by_pci_bus_id ::
  "hlml_h \<Rightarrow> string option \<Rightarrow> hlml_device_t option \<Rightarrow> fake_state
     \<Rightarrow> hlml_return \<times> hlml_device_t option" where
  "hlml_device_get_handle_by_pci_bus_id h pci_addr' device' s =
     (if forced s FAKE_DEVICE_GET_HANDLE_BY_PCI_BUS_ID \<noteq> HLML_SUCCESS
      then (forced s FAKE_DEVICE_GET_HANDLE_BY_PCI_BUS_ID, device')
      else if \<not> initialized (main_struct s) then (HLML_ERROR_UNINITIALIZED, device')
      else
        (case (device', pci_addr') of
           (Some _, Some a) \<Rightarrow>
             (case pci_bus_id_loop h a (main_struct s) 0 of
                Some n \<Rightarrow> (HLML_SUCCESS, Some (Some n))
              | None \<Rightarrow> (HLML_ERROR_NOT_FOUND, device'))
         | _ \<Rightarrow> (HLML_ERROR_INVALID_ARGUMENT, device')))"

text \<open>The loop of \<open>hlml_device_get_handle_by_index\<close>, from \<open>n\<close> on.\<close>

function index_loop :: "32 word \<Rightarrow> main_struct_t \<Rightarrow> int \<Rightarrow> nat option" where
  "index_loop index' m n =
     (if n < devices_num m then
        (if index' = index (devices_info m ! nat n)
         then Some (nat n)
         else index_loop index' m (n + 1))
      else None)"
  by pat_completeness auto
termination
  by (relation "measure (\<lambda>(index', m, n). nat (devices_num m - n))") auto

declare index_loop.simps [simp del]

text \<open>\<open>(int)index\<close> is the two's complement reading \<open>sint\<close> of the unsigned index.\<close>

definition hlml_device_get_handle_by_index ::
  "32 word \<Rightarrow> hlml_device_t option \<Rightarrow> fake_state \<Rightarrow> hlml_return \<times> hlml_device_t option" where
  "hlml_device_get_handle_by_index index' device' s =
     (if forced s FAKE_DEVICE_GET_HANDLE_BY_INDEX \<noteq> HLML_SUCCESS
      then (forced s FAKE_DEVICE_GET_HANDLE_BY_INDEX, device')
      else if \<not> initialized (main_struct s) then (HLML_ERROR_UNINITIALIZED, device')
      else if device' = None \<or> sint index' \<ge> devices_num (main_struct s)
      then (HLML_ERROR_INVALID_ARGUMENT, device')
      else
        (case index_loop index' (main_struct s) 0 of
           Some n \<Rightarrow> (HLML_SUCCESS, Some (Some n))
         | None \<Rightarrow> (HLML_ERROR_NOT_FOUND, device')))"

definition hlml_device_get_handle_by_UUID ::
  "string option \<Rightarrow> hlml_device_t option \<Rightarrow> fake_state \<Rightarrow> hlml_return" where
  "hlml_device_get_handle_by_UUID uuid device' s = HLML_SUCCESS"

definition hlml_device_get_name ::
  "hlml_device_t \<Rightarrow> string option \<Rightarrow> 32 word \<Rightarrow> fake_state \<Rightarrow> hlml_return" where
  "hlml_device_get_name device' name length' s = HLML_SUCCESS"

definition hlml_device_get_pci_info ::
  "hlml_h \<Rightarrow> hlml_device_t \<Rightarrow> hlml_pci_info_t option \<Rightarrow> fake_state
     \<Rightarrow> fault + hlml_return \<times> hlml_pci_info_t option" where
  "hlml_device_get_pci_info h device' pci s =
     (if forced s FAKE_DEVICE_GET_PCI_INFO \<noteq> HLML_SUCCESS
      then Inr (forced s FAKE_DEVICE_GET_PCI_INFO, pci)
      else if \<not> initialized (main_struct s) then Inr (HLML_ERROR_UNINITIALIZED, pci)
      else
        (case (device', pci) of
           (Some d, Some p) \<Rightarrow>
             if DEVICES_MAX \<le> d then Inl Invalid_pointer
             else
               let device_info' = devices_info (main_struct s) ! d;
                   p = p\<lparr>bus_id := strncpy (bus_id p) (pci_addr device_info') (PCI_ADDR_LEN h)\<rparr>;
                   p = p\<lparr>bus_id := take (PCI_ADDR_LEN h - 1) (bus_id p)\<rparr>;
                   p = p\<lparr>pci_device_id :=
                          device_id device_info' OR push_bit 16 (vendor_id device_info')\<rparr>
               in Inr (HLML_SUCCESS, Some p)
         | _ \<Rightarrow> Inr (HLML_ERROR_INVALID_ARGUMENT, pci)))"

text \<open>
  The entry points that only log the call and return \<open>HLML_ERROR_NOT_SUPPORTED\<close>:
  the clock, utilization, memory, temperature, power, ECC, UUID, minor number, MAC,
  revision, PCB, module and board id, PCIe, energy, NIC, affinity, violation, replaced
  rows, version and status queries.
\<close>

definition hlml_not_supported :: "fake_state \<Rightarrow> hlml_return" where
  "hlml_not_supported s = HLML_ERROR_NOT_SUPPORTED"

text \<open>The loop of \<open>hlml_device_register_events\<close>, from slot \<open>i\<close> on: the value of
  \<open>i\<close> after the loop and the event set as the loop leaves it.\<close>

function register_events_loop ::
  "hlml_device_t \<Rightarrow> hlml_event_set \<Rightarrow> nat \<Rightarrow> nat \<times> hlml_event_set" where
  "register_events_loop device_info' event_set i =
     (if i < DEVICES_MAX then
        (if device_info (dev_events event_set ! i) = None
         then (i, event_set\<lparr>dev_events :=
                   (dev_events event_set)
                     [i := \<lparr>device_info = None\<rparr>\<lparr>device_info := device_info'\<rparr>]\<rparr>)
         else if device_info (dev_events event_set ! i) = device_info' then (i, event_set)
         else register_events_loop device_info' event_set (i + 1))
      else (i, event_set))"
  by pat_completeness auto
termination
  by (relation "measure (\<lambda>(device_info', event_set, i). DEVICES_MAX - i)") auto

declare register_events_loop.simps [simp del]

definition hlml_device_register_events ::
  "hlml_device_t \<Rightarrow> 64 word \<Rightarrow> hlml_event_set_t \<Rightarrow> fake_state
     \<Rightarrow> fault + hlml_return \<times> fake_state" where
  "hlml_device_register_events device' event_types set' s =
     (if forced s FAKE_DEVICE_REGISTER_EVENTS \<noteq> HLML_SUCCESS
      then Inr (forced s FAKE_DEVICE_REGISTER_EVENTS, s)
      else
        (case set' of
           None \<Rightarrow> Inl Invalid_pointer
         | Some a \<Rightarrow>
             (case event_set_at s a of
                Inl f \<Rightarrow> Inl f
              | Inr event_set \<Rightarrow>
                  (case register_events_loop device' event_set 0 of
                     (i, event_set') \<Rightarrow>
                       let s' = s\<lparr>heap := (heap s)[a := Some event_set']\<rparr>
                       in if i = DEVICES_MAX then Inr (HLML_ERROR_INVALID_ARGUMENT, s')
                          else Inr (HLML_SUCCESS, s')))))"

text \<open>
  \<open>calloc(1, sizeof(struct hlml_event_set))\<close>: a new zeroed event set at a fresh
  address, or NULL when the allocator has no memory (\<open>available\<close> is its answer).
\<close>

definition calloc_event_set ::
  "bool \<Rightarrow> hlml_event_set option list \<Rightarrow> hlml_event_set_t \<times> hlml_event_set option list" where
  "calloc_event_set available hp =
     (if available
      then (Some (length hp),
            hp @ [Some \<lparr>dev_events = replicate DEVICES_MAX \<lparr>device_info = None\<rparr>\<rparr>])
      else (None, hp))"

definition hlml_event_set_create ::
  "bool \<Rightarrow> hlml_event_set_t option \<Rightarrow> fake_state
     \<Rightarrow> hlml_return \<times> hlml_event_set_t option \<times> fake_state" where
  "hlml_event_set_create available set' s =
     (if forced s FAKE_EVENT_SET_CREATE \<noteq> HLML_SUCCESS
      then (forced s FAKE_EVENT_SET_CREATE, set', s)
      else if \<not> initialized (main_struct s) then (HLML_ERROR_UNINITIALIZED, set', s)
      else if set' = None then (HLML_ERROR_INVALID_ARGUMENT, set', s)
      else
        (case calloc_event_set available (heap s) of
           (None, hp) \<Rightarrow> (HLML_ERROR_MEMORY, set', s\<lparr>heap := hp\<rparr>)
         | (Some a, hp) \<Rightarrow> (HLML_SUCCESS, Some (Some a), s\<lparr>heap := hp\<rparr>)))"

definition hlml_event_set_free ::
  "hlml_event_set_t \<Rightarrow> fake_state \<Rightarrow> fault + hlml_return \<times> fake_state" where
  "hlml_event_set_free set' s =
     (if forced s FAKE_EVENT_SET_FREE \<noteq> HLML_SUCCESS then Inr (forced s FAKE_EVENT_SET_FREE, s)
      else if \<not> initialized (main_struct s) then Inr (HLML_ERROR_UNINITIALIZED, s)
      else
        (case set' of
           None \<Rightarrow> Inr (HLML_ERROR_INVALID_ARGUMENT, s)
         | Some a \<Rightarrow>
             (case event_set_at s a of
                Inl f \<Rightarrow> Inl f
              | Inr event_set \<Rightarrow> Inr (HLML_SUCCESS, s\<lparr>heap := (heap s)[a := None]\<rparr>))))"

text \<open>
  The loop of \<open>hlml_event_set_wait\<close>, from slot \<open>i\<close> on. It returns what the code
  after the loop reads: the device of the slot \<open>dev_events\<close> points to, the event type
  and \<open>flow_control.events_num\<close>. The serial of a device is read only when an event
  is queued (the \<open>&&\<close> of the C condition).
\<close>

function event_set_wait_loop ::
  "hlml_h \<Rightarrow> fake_state \<Rightarrow> hlml_event_set \<Rightarrow> 64 word \<Rightarrow> nat
     \<Rightarrow> fault + hlml_device_t \<times> 64 word \<times> int" where
  "event_set_wait_loop h s event_set event_type' i =
     (if i < DEVICES_MAX then
        (case device_info (dev_events event_set ! i) of
           None \<Rightarrow> Inr (None, event_type', events_num (flow_control s))
         | Some d \<Rightarrow>
             if 0 < events_num (flow_control s) then
               (if DEVICES_MAX \<le> d then Inl Invalid_pointer
                else if strcmp (events (flow_control s) ! nat (events_num (flow_control s) - 1))
                          (serial (devices_info (main_struct s) ! d)) = 0
                then Inr (Some d, event_type' OR HLML_EVENT_CRITICAL_ERR h,
                          events_num (flow_control s) - 1)
                else event_set_wait_loop h s event_set event_type' (i + 1))
             else event_set_wait_loop h s event_set event_type' (i + 1))
      else Inr (device_info (dev_events event_set ! (DEVICES_MAX - 1)), event_type',
                events_num (flow_control s)))"
  by pat_completeness auto
termination
  by (relation "measure (\<lambda>(h, s, event_set, event_type', i). DEVICES_MAX - i)") auto

declare event_set_wait_loop.simps [simp del]

definition hlml_event_set_wait ::
  "hlml_h \<Rightarrow> hlml_event_set_t \<Rightarrow> hlml_event_data option \<Rightarrow> 32 word \<Rightarrow> fake_state
     \<Rightarrow> fault + hlml_return \<times> hlml_event_data option \<times> fake_state" where
  "hlml_event_set_wait h set' data timeoutms s =
     (if forced s FAKE_EVENT_SET_WAIT \<noteq> HLML_SUCCESS
      then Inr (forced s FAKE_EVENT_SET_WAIT, data, s)
      else if \<not> initialized (main_struct s) then Inr (HLML_ERROR_UNINITIALIZED, data, s)
      else
        (case (set', data) of
           (Some a, Some _) \<Rightarrow>
             (case event_set_at s a of
                Inl f \<Rightarrow> Inl f
              | Inr event_set \<Rightarrow>
                  (case event_set_wait_loop h s event_set 0 0 of
                     Inl f \<Rightarrow> Inl f
                   | Inr (device_info', event_type', events_num') \<Rightarrow>
                       let s' = s\<lparr>flow_control :=
                                    (flow_control s)\<lparr>events_num := events_num'\<rparr>\<rparr>
                       in if event_type' \<noteq> 0
                          then Inr (HLML_SUCCESS,
                                    Some \<lparr>device = device_info', event_type = event_type'\<rparr>,
                                    s')
                          else Inr (HLML_ERROR_TIMEOUT, data, s')))
         | _ \<Rightarrow> Inr (HLML_ERROR_INVALID_ARGUMENT, data, s)))"

text \<open>
  \<open>hlml_device_get_serial\<close>. The buffer \<open>serial\<close> is modelled by the string it holds;
  \<open>(int)length\<close> is the two's complement reading of the unsigned length.
\<close>

definition hlml_device_get_serial ::
  "hlml_device_t \<Rightarrow> string option \<Rightarrow> 32 word \<Rightarrow> fake_state
     \<Rightarrow> fault + hlml_return \<times> string option" where
  "hlml_device_get_serial device' serial' length' s =
     (case serial' of
        None \<Rightarrow> Inl Assertion_failed
      | Some buf \<Rightarrow>
          if \<not> length' > 0 then Inl Assertion_failed
          else if forced s FAKE_DEVICE_GET_SERIAL \<noteq> HLML_SUCCESS
          then Inr (forced s FAKE_DEVICE_GET_SERIAL, Some [])
          else
            (case device' of
               None \<Rightarrow> Inr (HLML_SUCCESS, Some [])
             | Some d \<Rightarrow>
                 if int SERIAL_MAX > sint length' then Inr (HLML_ERROR_INSUFFICIENT_SIZE, Some buf)
                 else if DEVICES_MAX \<le> d then Inl Invalid_pointer
                 else Inr (HLML_SUCCESS,
                           Some (strncpy buf (serial (devices_info (main_struct s) ! d))
                                   (unat length')))))"

subsection \<open>One call of the library\<close>

text \<open>
  A call of an entry point with its arguments, and the state it leaves (the status and
  the output parameters dropped): the transition system whose reachable states the
  invariants are about.
\<close>

datatype api_call =
    Call_add_device "string option" "string option" "string option" "string option" "32 word"
  | Call_reset
  | Call_add_critical_event "string option"
  | Call_reset_events
  | Call_set_error nat hlml_return
  | Call_hlml_init
  | Call_hlml_init_with_flags "32 word"
  | Call_hlml_shutdown
  | Call_hlml_device_get_count "32 word option"
  | Call_hlml_device_get_handle_by_pci_bus_id "string option" "hlml_device_t option"
  | Call_hlml_device_get_handle_by_index "32 word" "hlml_device_t option"
  | Call_hlml_device_get_handle_by_UUID "string option" "hlml_device_t option"
  | Call_hlml_device_get_name hlml_device_t "string option" "32 word"
  | Call_hlml_device_get_pci_info hlml_device_t "hlml_pci_info_t option"
  | Call_hlml_not_supported
  | Call_hlml_device_register_events hlml_device_t "64 word" hlml_event_set_t
  | Call_hlml_event_set_create bool "hlml_event_set_t option"
  | Call_hlml_event_set_free hlml_event_set_t
  | Call_hlml_event_set_wait hlml_event_set_t "hlml_event_data option" "32 word"
  | Call_hlml_device_get_serial hlml_device_t "string option" "32 word"

fun state_after :: "hlml_h \<Rightarrow> api_call \<Rightarrow> fake_state \<Rightarrow> fault + fake_state" where
  "state_after h (Call_add_device pci_addr' device_hex vendor_hex serial' index') s =
     add_device h pci_addr' device_hex vendor_hex serial' index' s"
| "state_after h Call_reset s = Inr (reset s)"
| "state_after h (Call_add_critical_event serial') s = add_critical_event serial' s"
| "state_after h Call_reset_events s = Inr (reset_events s)"
| "state_after h (Call_set_error call_id errCode) s = set_error call_id errCode s"
| "state_after h Call_hlml_init s = Inr (snd (hlml_init s))"
| "state_after h (Call_hlml_init_with_flags flags) s = Inr (snd (hlml_init_with_flags flags s))"
| "state_after h Call_hlml_shutdown s = Inr (snd (hlml_shutdown s))"
| "state_after h (Call_hlml_device_get_count device_count) s = Inr s"
| "state_after h (Call_hlml_device_get_handle_by_pci_bus_id pci_addr' device') s = Inr s"
| "state_after h (Call_hlml_device_get_handle_by_index index' device') s = Inr s"
| "state_after h (Call_hlml_device_get_handle_by_UUID uuid device') s = Inr s"
| "state_after h (Call_hlml_device_get_name device' name length') s = Inr s"
| "state_after h (Call_hlml_device_get_pci_info device' pci) s =
     (case hlml_device_get_pci_info h device' pci s of Inl f \<Rightarrow> Inl f | Inr r \<Rightarrow> Inr s)"
| "state_after h Call_hlml_not_supported s = Inr s"
| "state_after h (Call_hlml_device_register_events device' event_types set') s =
     (case hlml_device_register_events device' event_types set' s of
        Inl f \<Rightarrow> Inl f
      | Inr r \<Rightarrow> Inr (snd r))"
| "state_after h (Call_hlml_event_set_create available set') s =
     Inr (snd (snd (hlml_event_set_create available set' s)))"
| "state_after h (Call_hlml_event_set_free set') s =
     (case hlml_event_set_free set' s of Inl f \<Rightarrow> Inl f | Inr r \<Rightarrow> Inr (snd r))"
| "state_after h (Call_hlml_event_set_wait set' data timeoutms) s =
     (case hlml_event_set_wait h set' data timeoutms s of
        Inl f \<Rightarrow> Inl f
      | Inr r \<Rightarrow> Inr (snd (snd r)))"
| "state_after h (Call_hlml_device_get_serial device' serial' length') s =
     (case hlml_device_get_serial device' serial' length' s of Inl f \<Rightarrow> Inl f | Inr r \<Rightarrow> Inr s)"

text \<open>The bound on the pending-event queue.\<close>

definition events_num_ok :: "fake_state \<Rightarrow> bool" where
  "events_num_ok s \<longleftrightarrow>
     0 \<le> events_num (flow_control s) \<and> events_num (flow_control s) \<le> int FAKE_EVENTS_MAX"

subsection \<open>The wait operation as the specification words it\<close>

text \<open>
  The devices registered into an event set, in registration order: the slots up to the
  first empty one. The most recently queued event is the tail of the queue.
\<close>

definition registered_devices :: "hlml_event_set \<Rightarrow> nat list" where
  "registered_devices event_set =
     map the (takeWhile (\<lambda>p. p \<noteq> None) (map device_info (take DEVICES_MAX (dev_events event_set))))"

text \<open>The same from slot \<open>i\<close> on: what the loop of the wait operation has still to scan.\<close>

definition registered_from :: "hlml_event_set \<Rightarrow> nat \<Rightarrow> nat list" where
  "registered_from event_set i =
     map the (takeWhile (\<lambda>p. p \<noteq> None)
       (drop i (map device_info (take DEVICES_MAX (dev_events event_set)))))"

definition tail_event :: "fake_state \<Rightarrow> string option" where
  "tail_event s =
     (if 0 < events_num (flow_control s)
      then Some (events (flow_control s) ! nat (events_num (flow_control s) - 1))
      else None)"

definition remove_tail_event :: "fake_state \<Rightarrow> fake_state" where
  "remove_tail_event s =
     s\<lparr>flow_control := (flow_control s)\<lparr>events_num := events_num (flow_control s) - 1\<rparr>\<rparr>"

definition serial_matches :: "fake_state \<Rightarrow> string \<Rightarrow> nat \<Rightarrow> bool" where
  "serial_matches s ev d \<longleftrightarrow> c_str ev = c_str (serial (devices_info (main_struct s) ! d))"

definition wait_spec ::
  "hlml_h \<Rightarrow> hlml_event_set \<Rightarrow> hlml_event_data \<Rightarrow> fake_state
     \<Rightarrow> hlml_return \<times> hlml_event_data option \<times> fake_state" where
  "wait_spec h event_set data s =
     (case tail_event s of
        None \<Rightarrow> (HLML_ERROR_TIMEOUT, Some data, s)
      | Some ev \<Rightarrow>
          (case find (serial_matches s ev) (registered_devices event_set) of
             None \<Rightarrow> (HLML_ERROR_TIMEOUT, Some data, s)
           | Some d \<Rightarrow>
               (HLML_SUCCESS,
                Some \<lparr>device = Some d, event_type = HLML_EVENT_CRITICAL_ERR h\<rparr>,
                remove_tail_event s)))"

subsection \<open>Concrete runs\<close>

text \<open>
  Values for the two macros of hlml.h, used by the concrete runs below and by nothing
  else.
\<close>

definition sample_hlml_h :: hlml_h where
  "sample_hlml_h = \<lparr>PCI_ADDR_LEN = 15, HLML_EVENT_CRITICAL_ERR = 2\<rparr>"

text \<open>Running a list of calls from a state, stopping at the first fault.\<close>

fun run_calls :: "hlml_h \<Rightarrow> api_call list \<Rightarrow> fake_state \<Rightarrow> fault + fake_state" where
  "run_calls h [] s = Inr s"
| "run_calls h (c # cs) s =
     (case state_after h c s of Inl f \<Rightarrow> Inl f | Inr s' \<Rightarrow> run_calls h cs s')"

text \<open>
  Two devices A (serial S1) and B (serial S2) are added, the library is initialized, an
  event set is created, both devices are registered into it and a critical event for
  S2 is queued.
\<close>

definition two_device_calls :: "api_call list" where
  "two_device_calls =
     [Call_add_device (Some ''0000:19:00.0'') (Some ''1020'') (Some ''1da3'') (Some ''S1'') 0,
      Call_add_device (Some ''0000:1a:00.0'') (Some ''1020'') (Some ''1da3'') (Some ''S2'') 1,
      Call_hlml_init,
      Call_hlml_event_set_create True (Some None),
      Call_hlml_device_register_events (Some 0) 2 (Some 0),
      Call_hlml_device_register_events (Some 1) 2 (Some 0),
      Call_add_critical_event (Some ''S2'')]"

definition device_A :: device_info_t where
  "device_A =
     \<lparr>pci_addr = ''0000:19:00.0'', device_id = 0x1020, vendor_id = 0x1da3,
      serial = ''S1'', index = 0\<rparr>"

definition device_B :: device_info_t where
  "device_B =
     \<lparr>pci_addr = ''0000:1a:00.0'', device_id = 0x1020, vendor_id = 0x1da3,
      serial = ''S2'', index = 1\<rparr>"

definition event_set_E :: hlml_event_set where
  "event_set_E =
     \<lparr>dev_events =
        [\<lparr>device_info = Some 0\<rparr>, \<lparr>device_info = Some 1\<rparr>, \<lparr>device_info = None\<rparr>,
         \<lparr>device_info = None\<rparr>, \<lparr>device_info = None\<rparr>, \<lparr>device_info = None\<rparr>,
         \<lparr>device_info = None\<rparr>, \<lparr>device_info = None\<rparr>]\<rparr>"

definition armed_state :: fake_state where
  "armed_state =
     \<lparr>main_struct =
        \<lparr>initialized = True, devices_num = 2,
         devices_info =
           [device_A, device_B, zero_device, zero_device,
            zero_device, zero_device, zero_device, zero_device]\<rparr>,
      flow_control =
        \<lparr>func_ret = replicate 14 HLML_SUCCESS,
         events = [''S2'', [], [], [], [], [], [], []],
         events_num = 1\<rparr>,
      heap = [Some event_set_E]\<rparr>"

text \<open>One device whose index, 5, is not below the device count, and the library
  initialized.\<close>

definition lone_device_calls :: "api_call list" where
  "lone_device_calls =
     [Call_add_device (Some ''0000:19:00.0'') (Some ''1020'') (Some ''1da3'') (Some ''S1'') 5,
      Call_hlml_init]"

definition lone_device_state :: fake_state where
  "lone_device_state =
     \<lparr>main_struct =
        \<lparr>initialized = True, devices_num = 1,
         devices_info =
           [device_A\<lparr>index := 5\<rparr>, zero_device, zero_device, zero_device,
            zero_device, zero_device, zero_device, zero_device]\<rparr>,
      flow_control =
        \<lparr>func_ret = replicate 14 HLML_SUCCESS,
         events = [[], [], [], [], [], [], [], []],
         events_num = 0\<rparr>,
      heap = []\<rparr>"

text \<open>The state above with eight events queued, and with every slot of the event set
  taken by a device.\<close>

definition full_queue_state :: fake_state where
  "full_queue_state =
     armed_state\<lparr>flow_control :=
       (flow_control armed_state)
         \<lparr>events := [''S2'', ''S1'', ''S2'', ''S1'', ''S2'', ''S1'', ''S2'', ''S1''],
          events_num := 8\<rparr>\<rparr>"

definition full_event_set :: hlml_event_set where
  "full_event_set =
     \<lparr>dev_events =
        [\<lparr>device_info = Some 0\<rparr>, \<lparr>device_info = Some 1\<rparr>, \<lparr>device_info = Some 2\<rparr>,
         \<lparr>device_info = Some 3\<rparr>, \<lparr>device_info = Some 4\<rparr>, \<lparr>device_info = Some 5\<rparr>,
         \<lparr>device_info = Some 6\<rparr>, \<lparr>device_info = Some 7\<rparr>]\<rparr>"

definition full_set_state :: fake_state where
  "full_set_state = armed_state\<lparr>heap := [Some full_event_set]\<rparr>"

text \<open>The state before B is registered: only A is in the event set.\<close>

definition event_set_A_only :: hlml_event_set where
  "event_set_A_only =
     \<lparr>dev_events =
        [\<lparr>device_info = Some 0\<rparr>, \<lparr>device_info = None\<rparr>, \<lparr>device_info = None\<rparr>,
         \<lparr>device_info = None\<rparr>, \<lparr>device_info = None\<rparr>, \<lparr>device_info = None\<rparr>,
         \<lparr>device_info = None\<rparr>, \<lparr>device_info = None\<rparr>]\<rparr>"

definition A_registered_state :: fake_state where
  "A_registered_state = armed_state\<lparr>heap := [Some event_set_A_only]\<rparr>"

text \<open>The state of the run above had B been added with the index of A.\<close>

definition shared_index_state :: fake_state where
  "shared_index_state =
     armed_state\<lparr>main_struct :=
       (main_struct armed_state)
         \<lparr>devices_info :=
            [device_A, device_B\<lparr>index := 0\<rparr>, zero_device, zero_device,
             zero_device, zero_device, zero_device, zero_device]\<rparr>\<rparr>"

section \<open>Proofs\<close>

subsection \<open>Facts about the C strings\<close>

lemmas call_identity_defs =
  FAKE_INIT_def FAKE_INIT_WITH_FLAGS_def FAKE_SHUTDOWN_def FAKE_DEVICE_GET_COUNT_def
  FAKE_DEVICE_GET_HANDLE_BY_PCI_BUS_ID_def FAKE_DEVICE_GET_HANDLE_BY_INDEX_def
  FAKE_DEVICE_GET_HANDLE_BY_UUID_def FAKE_DEVICE_GET_NAME_def FAKE_DEVICE_GET_PCI_INFO_def
  FAKE_DEVICE_GET_SERIAL_def FAKE_DEVICE_REGISTER_EVENTS_def FAKE_EVENT_SET_CREATE_def
  FAKE_EVENT_SET_FREE_def FAKE_EVENT_SET_WAIT_def FAKE_CALL_IDENTITY_MAX_def

lemma c_str_Nil [simp]: "c_str [] = []"
  by (simp add: c_str_def)

lemma c_str_idem [simp]: "c_str (c_str cs) = c_str cs"
  by (simp add: c_str_def takeWhile_idem)

lemma of_char_int_eq_iff: "(of_char x :: int) = of_char y \<longleftrightarrow> x = y"
  by simp

lemma of_char_int_eq_0_iff: "(of_char x :: int) = 0 \<longleftrightarrow> x = NUL"
proof -
  have "(of_char x :: int) = of_char NUL \<longleftrightarrow> x = NUL"
    by (rule of_char_int_eq_iff)
  then show ?thesis by (simp add: NUL_def)
qed

lemma strcmp_eq_0_iff: "strcmp xs ys = 0 \<longleftrightarrow> c_str xs = c_str ys"
proof (induction xs ys rule: strcmp.induct)
  case 1
  show ?case by simp
next
  case (2 y ys)
  show ?case by (auto simp: c_str_def of_char_int_eq_0_iff)
next
  case (3 x xs)
  show ?case by (auto simp: c_str_def of_char_int_eq_0_iff)
next
  case (4 x xs y ys)
  then show ?case by (auto simp: c_str_def of_char_int_eq_iff)
qed

lemma strncmp_eq_0_iff: "strncmp xs ys n = 0 \<longleftrightarrow> take n (c_str xs) = take n (c_str ys)"
proof (induction xs ys n rule: strncmp.induct)
  case (1 xs ys)
  show ?case by simp
next
  case (2 n)
  show ?case by simp
next
  case (3 y ys n)
  show ?case by (auto simp: c_str_def of_char_int_eq_0_iff)
next
  case (4 x xs n)
  show ?case by (auto simp: c_str_def of_char_int_eq_0_iff)
next
  case (5 x xs y ys n)
  then show ?case by (auto simp: c_str_def of_char_int_eq_iff)
qed

subsection \<open>The control plane and the queue bound\<close>

lemma reset_func_ret_fold:
  "fold (\<lambda>call_id fr. fr[call_id := HLML_SUCCESS]) [0..<FAKE_CALL_IDENTITY_MAX] fr =
     replicate (min (length fr) FAKE_CALL_IDENTITY_MAX) HLML_SUCCESS @ drop FAKE_CALL_IDENTITY_MAX fr"
  (is "?f fr = _")
proof -
  have step: "fold (\<lambda>call_id fr. fr[call_id := HLML_SUCCESS]) [0..<n] fr =
     replicate (min (length fr) n) HLML_SUCCESS @ drop n fr" for n
  proof (induction n)
    case 0
    show ?case by simp
  next
    case (Suc n)
    show ?case
    proof (cases "n < length fr")
      case True
      then have "(replicate n HLML_SUCCESS @ drop n fr)[n := HLML_SUCCESS] =
                 replicate (Suc n) HLML_SUCCESS @ drop (Suc n) fr"
        by (simp add: list_update_append replicate_append_same flip: Cons_nth_drop_Suc)
      with True Suc show ?thesis
        by (cases "length fr = Suc n") (auto simp: min_def)
    next
      case False
      with Suc show ?thesis by (simp add: min_def list_update_beyond)
    qed
  qed
  show ?thesis by (rule step)
qed

lemma reset_idem: "reset (reset s) = reset s"
  by (simp add: reset_def Let_def reset_func_ret_fold min_def)

lemma event_set_wait_loop_events_num:
  "event_set_wait_loop h s event_set event_type' i = Inr (d, et, n) \<Longrightarrow>
     n = events_num (flow_control s) \<or>
     (0 < events_num (flow_control s) \<and> n = events_num (flow_control s) - 1)"
proof (induction h s event_set event_type' i rule: event_set_wait_loop.induct)
  case (1 h s event_set event_type' i)
  from "1.prems" show ?case
    apply (subst (asm) event_set_wait_loop.simps)
    apply (auto split: if_splits option.splits dest: "1.IH")
    done
qed

lemma hlml_event_set_wait_events_num_ok:
  assumes "events_num_ok s" and "hlml_event_set_wait h set' data timeoutms s = Inr (r, data', s')"
  shows "events_num_ok s'"
  using assms
  by (auto simp: hlml_event_set_wait_def events_num_ok_def Let_def
      split: if_splits option.splits sum.splits prod.splits
      dest!: event_set_wait_loop_events_num)

lemma state_after_events_num_ok:
  assumes "events_num_ok s" and "state_after h c s = Inr s'"
  shows "events_num_ok s'"
proof (cases c)
  case (Call_add_device a b c d e)
  with assms show ?thesis
    by (auto simp: add_device_def events_num_ok_def Let_def split: if_splits option.splits)
next
  case Call_reset
  with assms show ?thesis by (auto simp: reset_def events_num_ok_def Let_def)
next
  case (Call_add_critical_event x)
  with assms show ?thesis
    by (auto simp: add_critical_event_def events_num_ok_def Let_def split: if_splits)
next
  case Call_reset_events
  with assms show ?thesis by (auto simp: reset_events_def events_num_ok_def)
next
  case (Call_set_error a b)
  with assms show ?thesis by (auto simp: set_error_def events_num_ok_def split: if_splits)
next
  case Call_hlml_init
  with assms show ?thesis
    by (auto simp: hlml_init_def hlml_init_with_flags_def events_num_ok_def split: if_splits)
next
  case (Call_hlml_init_with_flags x)
  with assms show ?thesis
    by (auto simp: hlml_init_with_flags_def events_num_ok_def split: if_splits)
next
  case Call_hlml_shutdown
  with assms show ?thesis by (auto simp: hlml_shutdown_def events_num_ok_def split: if_splits)
next
  case (Call_hlml_device_get_pci_info a b)
  with assms show ?thesis by (auto split: sum.splits)
next
  case (Call_hlml_device_register_events a b c)
  with assms show ?thesis
    by (auto simp: hlml_device_register_events_def events_num_ok_def Let_def
        split: if_splits option.splits sum.splits prod.splits)
next
  case (Call_hlml_event_set_create a b)
  with assms show ?thesis
    by (auto simp: hlml_event_set_create_def calloc_event_set_def events_num_ok_def
        split: if_splits option.splits prod.splits)
next
  case (Call_hlml_event_set_free a)
  with assms show ?thesis
    by (auto simp: hlml_event_set_free_def events_num_ok_def
        split: if_splits option.splits sum.splits)
next
  case (Call_hlml_event_set_wait a b c)
  with assms show ?thesis
    by (cases "hlml_event_set_wait h a b c s")
       (auto dest: hlml_event_set_wait_events_num_ok)
next
  case (Call_hlml_device_get_serial a b c)
  with assms show ?thesis by (auto split: sum.splits)
qed (use assms in auto)

subsection \<open>The lookup loops\<close>

lemma pci_bus_id_loop_Some:
  "0 \<le> n \<Longrightarrow>
   pci_bus_id_loop h q m n = Some k \<longleftrightarrow>
     (nat n \<le> k \<and> int k < devices_num m \<and>
      strncmp q (pci_addr (devices_info m ! k)) (PCI_ADDR_LEN h) \<noteq> 0 \<and>
      (\<forall>j. nat n \<le> j \<and> j < k \<longrightarrow>
           strncmp q (pci_addr (devices_info m ! j)) (PCI_ADDR_LEN h) = 0))"
proof (induction h q m n rule: pci_bus_id_loop.induct)
  case (1 h q m n)
  show ?case
  proof (cases "n < devices_num m")
    case False
    then show ?thesis
      using "1.prems" by (subst pci_bus_id_loop.simps) auto
  next
    case in_range: True
    show ?thesis
    proof (cases "strncmp q (pci_addr (devices_info m ! nat n)) (PCI_ADDR_LEN h) \<noteq> 0")
      case True
      have "k = nat n" if "nat n \<le> k"
        "\<forall>j. nat n \<le> j \<and> j < k \<longrightarrow> strncmp q (pci_addr (devices_info m ! j)) (PCI_ADDR_LEN h) = 0"
      proof (rule ccontr)
        assume "k \<noteq> nat n"
        with that(1) have "nat n < k" by simp
        with that(2) True show False by blast
      qed
      with True in_range "1.prems" show ?thesis
        by (subst pci_bus_id_loop.simps) auto
    next
      case False
      have nat_Suc: "nat (n + 1) = Suc (nat n)"
        using "1.prems" by simp
      have IH: "pci_bus_id_loop h q m (n + 1) = Some k \<longleftrightarrow>
        (Suc (nat n) \<le> k \<and> int k < devices_num m \<and>
         strncmp q (pci_addr (devices_info m ! k)) (PCI_ADDR_LEN h) \<noteq> 0 \<and>
         (\<forall>j. Suc (nat n) \<le> j \<and> j < k \<longrightarrow>
              strncmp q (pci_addr (devices_info m ! j)) (PCI_ADDR_LEN h) = 0))"
        using "1.IH" [OF in_range] False "1.prems" by (simp add: nat_Suc)
      have "pci_bus_id_loop h q m n = pci_bus_id_loop h q m (n + 1)"
        using in_range False by (subst pci_bus_id_loop.simps) simp
      also note IH
      also have "(Suc (nat n) \<le> k \<and> int k < devices_num m \<and>
         strncmp q (pci_addr (devices_info m ! k)) (PCI_ADDR_LEN h) \<noteq> 0 \<and>
         (\<forall>j. Suc (nat n) \<le> j \<and> j < k \<longrightarrow>
              strncmp q (pci_addr (devices_info m ! j)) (PCI_ADDR_LEN h) = 0)) \<longleftrightarrow>
         (nat n \<le> k \<and> int k < devices_num m \<and>
         strncmp q (pci_addr (devices_info m ! k)) (PCI_ADDR_LEN h) \<noteq> 0 \<and>
         (\<forall>j. nat n \<le> j \<and> j < k \<longrightarrow>
              strncmp q (pci_addr (devices_info m ! j)) (PCI_ADDR_LEN h) = 0))"
        using False by (metis Suc_leD Suc_leI le_neq_implies_less)
      finally show ?thesis .
    qed
  qed
qed

lemma pci_bus_id_loop_None:
  "0 \<le> n \<Longrightarrow>
   pci_bus_id_loop h q m n = None \<longleftrightarrow>
     (\<forall>j. nat n \<le> j \<and> int j < devices_num m \<longrightarrow>
          strncmp q (pci_addr (devices_info m ! j)) (PCI_ADDR_LEN h) = 0)"
proof (induction h q m n rule: pci_bus_id_loop.induct)
  case (1 h q m n)
  show ?case
  proof (cases "n < devices_num m")
    case False
    then show ?thesis
      using "1.prems" by (subst pci_bus_id_loop.simps) auto
  next
    case in_range: True
    show ?thesis
    proof (cases "strncmp q (pci_addr (devices_info m ! nat n)) (PCI_ADDR_LEN h) \<noteq> 0")
      case True
      with in_range "1.prems" have "\<exists>j. nat n \<le> j \<and> int j < devices_num m \<and>
          strncmp q (pci_addr (devices_info m ! j)) (PCI_ADDR_LEN h) \<noteq> 0"
        by (intro exI [of _ "nat n"]) simp
      with True in_range show ?thesis
        by (subst pci_bus_id_loop.simps) auto
    next
      case False
      have nat_Suc: "nat (n + 1) = Suc (nat n)"
        using "1.prems" by simp
      have "pci_bus_id_loop h q m n = pci_bus_id_loop h q m (n + 1)"
        using in_range False by (subst pci_bus_id_loop.simps) simp
      also have "\<dots> = None \<longleftrightarrow>
        (\<forall>j. Suc (nat n) \<le> j \<and> int j < devices_num m \<longrightarrow>
          strncmp q (pci_addr (devices_info m ! j)) (PCI_ADDR_LEN h) = 0)"
        using "1.IH" [OF in_range] False "1.prems" by (simp add: nat_Suc)
      also have "\<dots> \<longleftrightarrow>
        (\<forall>j. nat n \<le> j \<and> int j < devices_num m \<longrightarrow>
          strncmp q (pci_addr (devices_info m ! j)) (PCI_ADDR_LEN h) = 0)"
        using False by (metis Suc_leD Suc_leI le_neq_implies_less)
      finally show ?thesis .
    qed
  qed
qed

lemma index_loop_Some:
  "0 \<le> n \<Longrightarrow>
   index_loop i m n = Some k \<longleftrightarrow>
     (nat n \<le> k \<and> int k < devices_num m \<and> index (devices_info m ! k) = i \<and>
      (\<forall>j. nat n \<le> j \<and> j < k \<longrightarrow> index (devices_info m ! j) \<noteq> i))"
proof (induction i m n rule: index_loop.induct)
  case (1 i m n)
  show ?case
  proof (cases "n < devices_num m")
    case False
    then show ?thesis
      using "1.prems" by (subst index_loop.simps) auto
  next
    case in_range: True
    show ?thesis
    proof (cases "i = index (devices_info m ! nat n)")
      case True
      have "k = nat n" if "nat n \<le> k"
        "\<forall>j. nat n \<le> j \<and> j < k \<longrightarrow> index (devices_info m ! j) \<noteq> i"
      proof (rule ccontr)
        assume "k \<noteq> nat n"
        with that(1) have "nat n < k" by simp
        with that(2) True show False by blast
      qed
      with True in_range "1.prems" show ?thesis
        by (subst index_loop.simps) auto
    next
      case False
      have nat_Suc: "nat (n + 1) = Suc (nat n)"
        using "1.prems" by simp
      have "index_loop i m n = index_loop i m (n + 1)"
        using in_range False by (subst index_loop.simps) simp
      also have "\<dots> = Some k \<longleftrightarrow>
        (Suc (nat n) \<le> k \<and> int k < devices_num m \<and> index (devices_info m ! k) = i \<and>
         (\<forall>j. Suc (nat n) \<le> j \<and> j < k \<longrightarrow> index (devices_info m ! j) \<noteq> i))"
        using "1.IH" [OF in_range] False "1.prems" by (simp add: nat_Suc)
      also have "\<dots> \<longleftrightarrow>
        (nat n \<le> k \<and> int k < devices_num m \<and> index (devices_info m ! k) = i \<and>
         (\<forall>j. nat n \<le> j \<and> j < k \<longrightarrow> index (devices_info m ! j) \<noteq> i))"
        using False by (metis Suc_leD Suc_leI le_neq_implies_less)
      finally show ?thesis .
    qed
  qed
qed

lemma sint_eq_uint_small:
  assumes "uint (w :: 32 word) < 2 ^ 31"
  shows "sint w = uint w"
proof -
  have "- (2 ^ 31) \<le> (0 :: int)" by simp
  also have "0 \<le> uint w" by simp
  finally have "signed_take_bit 31 (uint w) = uint w"
    using assms by (rule signed_take_bit_int_eq_self)
  then show ?thesis by (simp add: sint_uint)
qed

subsection \<open>The loop of the wait operation\<close>

lemma registered_from_0: "registered_from event_set 0 = registered_devices event_set"
  by (simp add: registered_from_def registered_devices_def)

lemma registered_from_step:
  assumes "length (dev_events event_set) = DEVICES_MAX" and "i < DEVICES_MAX"
  shows "registered_from event_set i =
           (case device_info (dev_events event_set ! i) of
              None \<Rightarrow> []
            | Some d \<Rightarrow> d # registered_from event_set (Suc i))"
proof -
  have "drop i (map device_info (dev_events event_set)) =
          device_info (dev_events event_set ! i) # drop (Suc i) (map device_info (dev_events event_set))"
    using assms by (simp flip: Cons_nth_drop_Suc)
  then show ?thesis
    using assms by (simp add: registered_from_def split: option.splits)
qed

lemma registered_from_end:
  assumes "length (dev_events event_set) = DEVICES_MAX" and "\<not> i < DEVICES_MAX"
  shows "registered_from event_set i = []"
  using assms by (simp add: registered_from_def)

lemma event_set_wait_loop_no_event:
  assumes "tail_event s = None"
  shows "\<exists>x. event_set_wait_loop h s event_set event_type' i =
            Inr (x, event_type', events_num (flow_control s))"
  using assms
proof (induction h s event_set event_type' i rule: event_set_wait_loop.induct)
  case (1 h s event_set event_type' i)
  then have "\<not> 0 < events_num (flow_control s)"
    by (simp add: tail_event_def split: if_splits)
  with 1 show ?case
    by (subst event_set_wait_loop.simps) (auto split: option.splits)
qed

lemma event_set_wait_loop_scan:
  assumes "tail_event s = Some ev"
    and "length (dev_events event_set) = DEVICES_MAX"
    and "\<forall>d \<in> set (registered_from event_set i). d < DEVICES_MAX"
  shows "case find (serial_matches s ev) (registered_from event_set i) of
           None \<Rightarrow> \<exists>x. event_set_wait_loop h s event_set event_type' i =
                         Inr (x, event_type', events_num (flow_control s))
         | Some d \<Rightarrow> event_set_wait_loop h s event_set event_type' i =
                         Inr (Some d, event_type' OR HLML_EVENT_CRITICAL_ERR h,
                              events_num (flow_control s) - 1)"
  using assms
proof (induction h s event_set event_type' i rule: event_set_wait_loop.induct)
  case (1 h s event_set event_type' i)
  from "1.prems"(1) have pos: "0 < events_num (flow_control s)"
    and ev: "ev = events (flow_control s) ! nat (events_num (flow_control s) - 1)"
    by (auto simp: tail_event_def split: if_splits)
  show ?case
  proof (cases "i < DEVICES_MAX")
    case False
    with "1.prems" show ?thesis
      by (subst event_set_wait_loop.simps) (simp add: registered_from_end)
  next
    case in_range: True
    note step = registered_from_step [OF "1.prems"(2) in_range]
    show ?thesis
    proof (cases "device_info (dev_events event_set ! i)")
      case None
      with in_range show ?thesis
        by (subst event_set_wait_loop.simps) (simp add: step)
    next
      case (Some d)
      with "1.prems"(3) have valid: "d < DEVICES_MAX"
        and rest: "\<forall>d \<in> set (registered_from event_set (Suc i)). d < DEVICES_MAX"
        by (simp_all add: step)
      show ?thesis
      proof (cases "serial_matches s ev d")
        case True
        then have "strcmp ev (serial (devices_info (main_struct s) ! d)) = 0"
          by (simp add: serial_matches_def strcmp_eq_0_iff)
        with True Some in_range pos valid ev show ?thesis
          by (subst event_set_wait_loop.simps) (simp add: step)
      next
        case False
        then have ne: "strcmp ev (serial (devices_info (main_struct s) ! d)) \<noteq> 0"
          by (simp add: serial_matches_def strcmp_eq_0_iff)
        have skip: "event_set_wait_loop h s event_set event_type' i =
              event_set_wait_loop h s event_set event_type' (i + 1)"
          using Some in_range pos valid ne ev
          by (subst event_set_wait_loop.simps) simp
        have "case find (serial_matches s ev) (registered_from event_set (i + 1)) of
           None \<Rightarrow> \<exists>x. event_set_wait_loop h s event_set event_type' (i + 1) =
                         Inr (x, event_type', events_num (flow_control s))
         | Some d \<Rightarrow> event_set_wait_loop h s event_set event_type' (i + 1) =
                         Inr (Some d, event_type' OR HLML_EVENT_CRITICAL_ERR h,
                              events_num (flow_control s) - 1)"
          using "1.IH"(1) [OF in_range Some pos _ _ "1.prems"(1,2)] valid ne ev rest
          by simp
        then show ?thesis
          using False Some by (simp add: step skip split: option.splits)
      qed
    qed
  qed
qed

subsection \<open>The loop of the registration\<close>

lemma register_events_loop_done:
  "\<not> i < DEVICES_MAX \<Longrightarrow> register_events_loop dev event_set i = (i, event_set)"
  by (subst register_events_loop.simps) simp

lemma register_events_loop_claim:
  "i < DEVICES_MAX \<Longrightarrow> device_info (dev_events event_set ! i) = None \<Longrightarrow>
   register_events_loop dev event_set i =
     (i, event_set\<lparr>dev_events := (dev_events event_set)[i := \<lparr>device_info = dev\<rparr>]\<rparr>)"
  by (subst register_events_loop.simps) simp

lemma register_events_loop_found:
  "i < DEVICES_MAX \<Longrightarrow> device_info (dev_events event_set ! i) = Some d \<Longrightarrow>
   register_events_loop (Some d) event_set i = (i, event_set)"
  by (subst register_events_loop.simps) simp

lemma register_events_loop_skip:
  "i < DEVICES_MAX \<Longrightarrow> device_info (dev_events event_set ! i) = Some d \<Longrightarrow> dev \<noteq> Some d \<Longrightarrow>
   register_events_loop dev event_set i = register_events_loop dev event_set (Suc i)"
  by (subst register_events_loop.simps) auto

lemma register_events_loop_below:
  "register_events_loop dev event_set i = (j, event_set') \<Longrightarrow> k < i \<Longrightarrow>
     dev_events event_set' ! k = dev_events event_set ! k"
proof (induction dev event_set i rule: register_events_loop.induct)
  case (1 dev event_set i)
  show ?case
  proof (cases "i < DEVICES_MAX")
    case False
    with "1.prems" show ?thesis by (simp add: register_events_loop_done)
  next
    case in_range: True
    show ?thesis
    proof (cases "device_info (dev_events event_set ! i)")
      case None
      with in_range "1.prems" show ?thesis by (auto simp: register_events_loop_claim)
    next
      case (Some d)
      show ?thesis
      proof (cases "dev = Some d")
        case True
        with Some in_range "1.prems" show ?thesis by (simp add: register_events_loop_found)
      next
        case False
        with Some in_range "1.prems"(1)
        have "register_events_loop dev event_set (i + 1) = (j, event_set')"
          by (simp add: register_events_loop_skip)
        with "1.IH" [OF in_range] Some False "1.prems"(2) show ?thesis by simp
      qed
    qed
  qed
qed

lemma register_events_loop_again:
  assumes "register_events_loop dev event_set i = (j, event_set')"
    and "length (dev_events event_set) = DEVICES_MAX"
  shows "register_events_loop dev event_set' i = (j, event_set')"
  using assms
proof (induction dev event_set i rule: register_events_loop.induct)
  case (1 dev event_set i)
  show ?case
  proof (cases "i < DEVICES_MAX")
    case False
    with "1.prems" show ?thesis by (simp add: register_events_loop_done)
  next
    case in_range: True
    show ?thesis
    proof (cases "device_info (dev_events event_set ! i)")
      case None
      have "(j, event_set') =
            (i, event_set\<lparr>dev_events := (dev_events event_set)[i := \<lparr>device_info = dev\<rparr>]\<rparr>)"
        by (rule trans [OF "1.prems"(1) [symmetric] register_events_loop_claim [OF in_range None]])
      then have j: "j = i"
        and e: "event_set' = event_set\<lparr>dev_events :=
                   (dev_events event_set)[i := \<lparr>device_info = dev\<rparr>]\<rparr>"
        by blast+
      from in_range "1.prems"(2) have at_i: "device_info (dev_events event_set' ! i) = dev"
        by (simp add: e)
      show ?thesis
      proof (cases dev)
        case None
        with at_i in_range have "register_events_loop dev event_set' i =
            (i, event_set'\<lparr>dev_events := (dev_events event_set')[i := \<lparr>device_info = dev\<rparr>]\<rparr>)"
          by (simp add: register_events_loop_claim)
        then show ?thesis by (simp add: j e)
      next
        case (Some d)
        with at_i in_range j show ?thesis by (simp add: register_events_loop_found)
      qed
    next
      case (Some d)
      show ?thesis
      proof (cases "dev = Some d")
        case True
        with Some in_range "1.prems" show ?thesis by (simp add: register_events_loop_found)
      next
        case False
        with Some in_range "1.prems"(1)
        have next_call: "register_events_loop dev event_set (i + 1) = (j, event_set')"
          by (simp add: register_events_loop_skip)
        have "register_events_loop dev event_set' (i + 1) = (j, event_set')"
          using "1.IH" [OF in_range _ _ next_call "1.prems"(2)] Some False by simp
        moreover have "dev_events event_set' ! i = dev_events event_set ! i"
          using register_events_loop_below [OF next_call, of i] by simp
        ultimately show ?thesis
          using Some False in_range by (simp add: register_events_loop_skip)
      qed
    qed
  qed
qed

lemma register_events_loop_full:
  assumes "\<forall>k. i \<le> k \<and> k < DEVICES_MAX \<longrightarrow>
             device_info (dev_events event_set ! k) \<noteq> None \<and>
             device_info (dev_events event_set ! k) \<noteq> dev"
    and "i \<le> DEVICES_MAX"
  shows "register_events_loop dev event_set i = (DEVICES_MAX, event_set)"
  using assms
proof (induction dev event_set i rule: register_events_loop.induct)
  case (1 dev event_set i)
  show ?case
  proof (cases "i < DEVICES_MAX")
    case False
    with "1.prems" show ?thesis by (simp add: register_events_loop_done)
  next
    case True
    with "1.prems"(1) obtain d where d: "device_info (dev_events event_set ! i) = Some d"
      and ne: "dev \<noteq> Some d"
      by (metis le_refl not_None_eq)
    have "register_events_loop dev event_set (i + 1) = (DEVICES_MAX, event_set)"
      using "1.IH" [OF True] d ne "1.prems"(1) True by simp
    with True d ne show ?thesis by (simp add: register_events_loop_skip)
  qed
qed

lemma register_events_loop_length:
  "register_events_loop dev event_set i = (j, event_set') \<Longrightarrow>
     length (dev_events event_set') = length (dev_events event_set)"
proof (induction dev event_set i rule: register_events_loop.induct)
  case (1 dev event_set i)
  show ?case
  proof (cases "i < DEVICES_MAX")
    case False
    with "1.prems" show ?thesis by (simp add: register_events_loop_done)
  next
    case in_range: True
    show ?thesis
    proof (cases "device_info (dev_events event_set ! i)")
      case None
      with in_range "1.prems" show ?thesis by (auto simp: register_events_loop_claim)
    next
      case (Some d)
      show ?thesis
      proof (cases "dev = Some d")
        case True
        with Some in_range "1.prems" show ?thesis by (simp add: register_events_loop_found)
      next
        case False
        with Some in_range "1.prems"(1)
        have "register_events_loop dev event_set (i + 1) = (j, event_set')"
          by (simp add: register_events_loop_skip)
        with "1.IH" [OF in_range] Some False show ?thesis by simp
      qed
    qed
  qed
qed

subsection \<open>Well-formed states\<close>

lemma event_set_at_live:
  "event_set_at s a = Inr event_set \<longleftrightarrow> a < length (heap s) \<and> heap s ! a = Some event_set"
  by (auto simp: event_set_at_def split: option.splits)

lemma state_ok_event_set:
  "state_ok s \<Longrightarrow> event_set_at s a = Inr event_set \<Longrightarrow>
     length (dev_events event_set) = DEVICES_MAX"
  by (auto simp: state_ok_def event_set_at_live list_all_length event_set_ok_def
      split: option.splits)

lemma state_ok_initial: "state_ok initial_state"
  by (simp add: state_ok_def initial_state_def)

lemma list_all_heap_update:
  "list_all event_set_ok hp \<Longrightarrow> event_set_ok e \<Longrightarrow> list_all event_set_ok (hp[a := e])"
  using set_update_subset_insert [of hp a e] by (auto simp: list_all_iff)

lemma state_ok_add_device:
  "state_ok s \<Longrightarrow> add_device h a b c d e s = Inr s' \<Longrightarrow> state_ok s'"
  by (auto simp: add_device_def state_ok_def Let_def split: if_splits option.splits)

lemma state_ok_reset: "state_ok s \<Longrightarrow> state_ok (reset s)"
  by (simp add: reset_def state_ok_def Let_def reset_func_ret_fold)

lemma state_ok_add_critical_event:
  "state_ok s \<Longrightarrow> add_critical_event x s = Inr s' \<Longrightarrow> state_ok s'"
  by (auto simp: add_critical_event_def state_ok_def Let_def split: if_splits)

lemma state_ok_register_events:
  assumes "state_ok s" and "hlml_device_register_events dev et set' s = Inr (r, s')"
  shows "state_ok s'"
proof (cases "forced s FAKE_DEVICE_REGISTER_EVENTS = HLML_SUCCESS")
  case False
  with assms show ?thesis by (simp add: hlml_device_register_events_def)
next
  case True
  with assms(2) obtain a event_set where a: "set' = Some a"
    and live: "event_set_at s a = Inr event_set"
    by (auto simp: hlml_device_register_events_def split: option.splits sum.splits)
  obtain i event_set' where loop: "register_events_loop dev event_set 0 = (i, event_set')"
    by (cases "register_events_loop dev event_set 0")
  from assms(2) True a live loop have s': "s' = s\<lparr>heap := (heap s)[a := Some event_set']\<rparr>"
    by (auto simp: hlml_device_register_events_def Let_def split: if_splits)
  from assms(1) live have "length (dev_events event_set) = DEVICES_MAX"
    by (auto simp: state_ok_def event_set_at_def list_all_length event_set_ok_def
        split: if_splits option.splits)
  with loop have "event_set_ok (Some event_set')"
    by (simp add: event_set_ok_def register_events_loop_length)
  with assms(1) show ?thesis
    by (simp add: s' state_ok_def list_all_heap_update)
qed

lemma state_ok_event_set_wait:
  assumes "state_ok s" and "hlml_event_set_wait h set' data timeoutms s = Inr (r, data', s')"
  shows "state_ok s'"
proof -
  from assms have "events_num_ok s'"
    by (intro hlml_event_set_wait_events_num_ok [OF _ assms(2)])
       (simp add: state_ok_def events_num_ok_def)
  moreover from assms(2) have "main_struct s' = main_struct s" "heap s' = heap s"
    "func_ret (flow_control s') = func_ret (flow_control s)"
    "events (flow_control s') = events (flow_control s)"
    by (auto simp: hlml_event_set_wait_def Let_def
        split: if_splits option.splits sum.splits prod.splits)
  ultimately show ?thesis
    using assms(1) by (simp add: state_ok_def events_num_ok_def)
qed

lemma uint_devices_num:
  assumes "state_ok s"
  shows "uint (word_of_int (devices_num (main_struct s)) :: 32 word) = devices_num (main_struct s)"
proof -
  from assms have "0 \<le> devices_num (main_struct s)" "devices_num (main_struct s) < 2 ^ 32"
    by (simp_all add: state_ok_def DEVICES_MAX_def)
  then show ?thesis
    by (simp add: uint_word_of_int_eq take_bit_int_eq_self)
qed

subsection \<open>The concrete runs\<close>

lemma sscanf_1020: "sscanf_x ''1020'' old = 0x1020"
  by (simp add: sscanf_x_def skip_sign_def skip_0x_def hex_digit_def isspace_def c_str_def NUL_def Let_def)

lemma sscanf_1da3: "sscanf_x ''1da3'' old = 0x1da3"
  by (simp add: sscanf_x_def skip_sign_def skip_0x_def hex_digit_def isspace_def c_str_def NUL_def Let_def)

lemma armed_state_reached:
  "run_calls sample_hlml_h two_device_calls initial_state = Inr armed_state"
  by (simp add: two_device_calls_def initial_state_def armed_state_def sample_hlml_h_def
      add_device_def hlml_init_def hlml_init_with_flags_def hlml_event_set_create_def
      calloc_event_set_def hlml_device_register_events_def event_set_at_def
      add_critical_event_def forced_def call_identity_defs DEVICES_MAX_def FAKE_EVENTS_MAX_def
      SERIAL_MAX_def snprintf_s_def c_str_def NUL_def sscanf_1020 sscanf_1da3
      zero_device_def device_A_def device_B_def event_set_E_def Let_def
      register_events_loop.simps numeral_eq_Suc)

lemmas concrete_defs =
  armed_state_def device_A_def device_B_def zero_device_def
  sample_hlml_h_def forced_def event_set_at_def call_identity_defs
  DEVICES_MAX_def FAKE_EVENTS_MAX_def SERIAL_MAX_def

lemma registered_devices_E: "registered_devices event_set_E = [0, 1]"
  by (simp add: registered_devices_def event_set_E_def DEVICES_MAX_def)

lemma wait_spec_armed:
  "wait_spec sample_hlml_h event_set_E data armed_state =
     (HLML_SUCCESS, Some \<lparr>device = Some 1, event_type = 2\<rparr>, remove_tail_event armed_state)"
  by (simp add: wait_spec_def tail_event_def registered_devices_E serial_matches_def
      c_str_def NUL_def concrete_defs)

lemma wait_spec_drained:
  "wait_spec sample_hlml_h event_set_E data (remove_tail_event armed_state) =
     (HLML_ERROR_TIMEOUT, Some data, remove_tail_event armed_state)"
  by (simp add: wait_spec_def tail_event_def remove_tail_event_def concrete_defs)

lemma lone_device_state_reached:
  "run_calls sample_hlml_h lone_device_calls initial_state = Inr lone_device_state"
  by (simp add: lone_device_calls_def initial_state_def lone_device_state_def sample_hlml_h_def
      add_device_def hlml_init_def hlml_init_with_flags_def forced_def call_identity_defs
      DEVICES_MAX_def FAKE_EVENTS_MAX_def SERIAL_MAX_def snprintf_s_def c_str_def NUL_def
      sscanf_1020 sscanf_1da3 zero_device_def device_A_def Let_def numeral_eq_Suc)

lemma state_ok_armed: "state_ok armed_state"
  by (simp add: state_ok_def event_set_ok_def event_set_E_def concrete_defs)

lemma strncmp_same_address: "strncmp ''0000:19:00.0'' ''0000:19:00.0'' 15 = 0"
  by (simp add: strncmp_eq_0_iff)

lemma strncmp_other_address: "strncmp ''0000:19:00.0'' ''0000:1a:00.0'' 15 \<noteq> 0"
  by (simp add: strncmp_eq_0_iff c_str_def NUL_def)

lemma state_ok_full_set: "state_ok full_set_state"
  by (simp add: state_ok_def event_set_ok_def full_set_state_def full_event_set_def concrete_defs)

lemma register_B_first:
  "hlml_device_register_events (Some 1) 2 (Some 0) A_registered_state =
     Inr (HLML_SUCCESS, armed_state)"
  by (simp add: hlml_device_register_events_def Let_def register_events_loop.simps
      A_registered_state_def event_set_A_only_def event_set_E_def concrete_defs)

lemma state_ok_A_registered: "state_ok A_registered_state"
  by (simp add: state_ok_def event_set_ok_def A_registered_state_def event_set_A_only_def
      concrete_defs)

section \<open>The claims\<close>

text \<open>
  C1. In an initialized state, with no error injected for the wait operation, a live
  event set and an output pointer that is not NULL, \<open>hlml_event_set_wait\<close> does what
  \<open>wait_spec\<close> says: it scans the registered devices in registration order and, for the
  first one whose serial equals the serial of the most recently queued event, removes
  that event from the tail of the queue and returns success with a record of that
  device and the critical-error event type; when no registered device matches, or the
  queue is empty, it returns the timeout status and leaves the state as it was. The
  timeout argument does not occur in the result. The device pointers of the event set
  are taken to be valid and the critical-error bit not to be zero.
\<close>

theorem hlml_event_set_wait_meets_spec:
  assumes "initialized (main_struct s)"
    and "forced s FAKE_EVENT_SET_WAIT = HLML_SUCCESS"
    and "event_set_at s a = Inr event_set"
    and "length (dev_events event_set) = DEVICES_MAX"
    and "list_all (\<lambda>d. d < DEVICES_MAX) (registered_devices event_set)"
    and "HLML_EVENT_CRITICAL_ERR h \<noteq> 0"
  shows "hlml_event_set_wait h (Some a) (Some data) timeoutms s =
           Inr (wait_spec h event_set data s)"
proof (cases "tail_event s")
  case None
  from event_set_wait_loop_no_event [OF None, of h event_set 0 0]
  obtain x where "event_set_wait_loop h s event_set 0 0 = Inr (x, 0, events_num (flow_control s))"
    by blast
  with assms None show ?thesis
    by (simp add: hlml_event_set_wait_def wait_spec_def)
next
  case (Some ev)
  from assms(5) have valid: "\<forall>d \<in> set (registered_devices event_set). d < DEVICES_MAX"
    by (simp add: list_all_iff)
  note scan = event_set_wait_loop_scan
    [OF Some assms(4), of 0 h 0, unfolded registered_from_0, OF valid]
  show ?thesis
  proof (cases "find (serial_matches s ev) (registered_devices event_set)")
    case None
    with scan obtain x where
      "event_set_wait_loop h s event_set 0 0 = Inr (x, 0, events_num (flow_control s))"
      by auto
    with assms Some None show ?thesis
      by (simp add: hlml_event_set_wait_def wait_spec_def)
  next
    case (Some d)
    with scan have
      "event_set_wait_loop h s event_set 0 0 =
         Inr (Some d, HLML_EVENT_CRITICAL_ERR h, events_num (flow_control s) - 1)"
      by simp
    with assms \<open>tail_event s = Some ev\<close> Some show ?thesis
      by (simp add: hlml_event_set_wait_def wait_spec_def remove_tail_event_def)
  qed
qed

text \<open>
  The run of the specification: devices A (serial S1) and B (serial S2) registered into
  one event set, a critical event queued for S2. The first wait returns a record for B
  and leaves the queue empty, the second returns the timeout status.
\<close>

theorem hlml_event_set_wait_delivers_S2:
  "run_calls sample_hlml_h two_device_calls initial_state = Inr armed_state \<and>
   hlml_event_set_wait sample_hlml_h (Some 0) (Some \<lparr>device = None, event_type = 0\<rparr>) 1000
       armed_state =
     Inr (HLML_SUCCESS, Some \<lparr>device = Some 1, event_type = 2\<rparr>, remove_tail_event armed_state) \<and>
   serial (devices_info (main_struct armed_state) ! 1) = ''S2'' \<and>
   events_num (flow_control (remove_tail_event armed_state)) = 0 \<and>
   hlml_event_set_wait sample_hlml_h (Some 0) (Some \<lparr>device = None, event_type = 0\<rparr>) 0
       (remove_tail_event armed_state) =
     Inr (HLML_ERROR_TIMEOUT, Some \<lparr>device = None, event_type = 0\<rparr>,
          remove_tail_event armed_state)"
proof -
  have init: "initialized (main_struct armed_state)"
    "initialized (main_struct (remove_tail_event armed_state))"
    by (simp_all add: remove_tail_event_def concrete_defs)
  have quiet: "forced armed_state FAKE_EVENT_SET_WAIT = HLML_SUCCESS"
    "forced (remove_tail_event armed_state) FAKE_EVENT_SET_WAIT = HLML_SUCCESS"
    by (simp_all add: remove_tail_event_def concrete_defs)
  have live: "event_set_at armed_state 0 = Inr event_set_E"
    "event_set_at (remove_tail_event armed_state) 0 = Inr event_set_E"
    by (simp_all add: remove_tail_event_def concrete_defs)
  have slots: "length (dev_events event_set_E) = DEVICES_MAX"
    by (simp add: event_set_E_def DEVICES_MAX_def)
  have valid: "list_all (\<lambda>d. d < DEVICES_MAX) (registered_devices event_set_E)"
    by (simp add: registered_devices_E DEVICES_MAX_def)
  have bit: "HLML_EVENT_CRITICAL_ERR sample_hlml_h \<noteq> 0"
    by (simp add: sample_hlml_h_def)
  note first = hlml_event_set_wait_meets_spec
    [OF init(1) quiet(1) live(1) slots valid bit, of "\<lparr>device = None, event_type = 0\<rparr>" 1000]
  note second = hlml_event_set_wait_meets_spec
    [OF init(2) quiet(2) live(2) slots valid bit, of "\<lparr>device = None, event_type = 0\<rparr>" 0]
  show ?thesis
    using first second
    by (simp add: wait_spec_armed wait_spec_drained armed_state_reached)
       (simp add: remove_tail_event_def concrete_defs)
qed

text \<open>
  C2. The claim fails for two of the fourteen call identities: \<open>hlml_device_get_name\<close>
  and \<open>hlml_device_get_handle_by_UUID\<close> never read the table. After
  \<open>set_error\<close> has stored a status other than success for them, each still returns
  success.
\<close>

theorem hlml_device_get_name_ignores_injected_error:
  "(case set_error FAKE_DEVICE_GET_NAME HLML_ERROR_NOT_FOUND armed_state of
      Inl f \<Rightarrow> False
    | Inr s \<Rightarrow>
        forced s FAKE_DEVICE_GET_NAME = HLML_ERROR_NOT_FOUND \<and>
        hlml_device_get_name (Some 0) (Some []) 64 s = HLML_SUCCESS) \<and>
   (case set_error FAKE_DEVICE_GET_HANDLE_BY_UUID HLML_ERROR_NOT_FOUND armed_state of
      Inl f \<Rightarrow> False
    | Inr s \<Rightarrow>
        forced s FAKE_DEVICE_GET_HANDLE_BY_UUID = HLML_ERROR_NOT_FOUND \<and>
        hlml_device_get_handle_by_UUID (Some []) (Some None) s = HLML_SUCCESS)"
  by (simp add: set_error_def hlml_device_get_name_def hlml_device_get_handle_by_UUID_def
      concrete_defs)

text \<open>
  C3. In an initialized state, with no error injected and neither argument NULL, the
  lookup by PCI address returns success with the handle of device \<open>k\<close> exactly when
  \<open>k\<close> is the first registered device, in insertion order, whose stored address does
  not compare equal to the query (\<open>strncmp\<close> over \<open>PCI_ADDR_LEN\<close> bytes is not
  0); it returns not-found exactly when every registered device compares equal, which
  includes the empty registry; and it returns nothing else. Two addresses compare equal
  when the strings agree on their first \<open>PCI_ADDR_LEN\<close> characters.
\<close>

theorem hlml_device_get_handle_by_pci_bus_id_inverted:
  assumes "initialized (main_struct s)"
    and "forced s FAKE_DEVICE_GET_HANDLE_BY_PCI_BUS_ID = HLML_SUCCESS"
  shows
    "(hlml_device_get_handle_by_pci_bus_id h (Some q) (Some old) s =
        (HLML_SUCCESS, Some (Some k)) \<longleftrightarrow>
      (int k < devices_num (main_struct s) \<and>
       strncmp q (pci_addr (devices_info (main_struct s) ! k)) (PCI_ADDR_LEN h) \<noteq> 0 \<and>
       (\<forall>j < k. strncmp q (pci_addr (devices_info (main_struct s) ! j)) (PCI_ADDR_LEN h) = 0))) \<and>
     (hlml_device_get_handle_by_pci_bus_id h (Some q) (Some old) s =
        (HLML_ERROR_NOT_FOUND, Some old) \<longleftrightarrow>
      (\<forall>j. int j < devices_num (main_struct s) \<longrightarrow>
           strncmp q (pci_addr (devices_info (main_struct s) ! j)) (PCI_ADDR_LEN h) = 0)) \<and>
     ((\<exists>n. hlml_device_get_handle_by_pci_bus_id h (Some q) (Some old) s =
             (HLML_SUCCESS, Some (Some n))) \<or>
      hlml_device_get_handle_by_pci_bus_id h (Some q) (Some old) s =
        (HLML_ERROR_NOT_FOUND, Some old)) \<and>
     (strncmp q stored (PCI_ADDR_LEN h) = 0 \<longleftrightarrow>
        take (PCI_ADDR_LEN h) (c_str q) = take (PCI_ADDR_LEN h) (c_str stored))"
proof -
  have call: "hlml_device_get_handle_by_pci_bus_id h (Some q) (Some old) s =
      (case pci_bus_id_loop h q (main_struct s) 0 of
         Some n \<Rightarrow> (HLML_SUCCESS, Some (Some n))
       | None \<Rightarrow> (HLML_ERROR_NOT_FOUND, Some old))"
    using assms by (simp add: hlml_device_get_handle_by_pci_bus_id_def)
  have found: "hlml_device_get_handle_by_pci_bus_id h (Some q) (Some old) s =
        (HLML_SUCCESS, Some (Some k)) \<longleftrightarrow> pci_bus_id_loop h q (main_struct s) 0 = Some k"
    by (simp add: call split: option.splits)
  have missing: "hlml_device_get_handle_by_pci_bus_id h (Some q) (Some old) s =
        (HLML_ERROR_NOT_FOUND, Some old) \<longleftrightarrow> pci_bus_id_loop h q (main_struct s) 0 = None"
    by (simp add: call split: option.splits)
  show ?thesis
    apply (intro conjI)
       apply (simp add: found pci_bus_id_loop_Some)
      apply (simp add: missing pci_bus_id_loop_None)
     apply (simp add: call split: option.splits)
    apply (rule strncmp_eq_0_iff)
    done
qed

text \<open>
  Asked for the address of A, the lookup returns B; with A alone in the registry it
  returns not-found.
\<close>

theorem hlml_device_get_handle_by_pci_bus_id_returns_other:
  "hlml_device_get_handle_by_pci_bus_id sample_hlml_h (Some ''0000:19:00.0'') (Some None)
       armed_state = (HLML_SUCCESS, Some (Some 1)) \<and>
   pci_addr (devices_info (main_struct armed_state) ! 0) = ''0000:19:00.0'' \<and>
   pci_addr (devices_info (main_struct armed_state) ! 1) = ''0000:1a:00.0'' \<and>
   hlml_device_get_handle_by_pci_bus_id sample_hlml_h (Some ''0000:19:00.0'') (Some None)
       lone_device_state = (HLML_ERROR_NOT_FOUND, Some None)"
proof -
  have init: "initialized (main_struct armed_state)" "initialized (main_struct lone_device_state)"
    by (simp_all add: lone_device_state_def concrete_defs)
  have quiet: "forced armed_state FAKE_DEVICE_GET_HANDLE_BY_PCI_BUS_ID = HLML_SUCCESS"
    "forced lone_device_state FAKE_DEVICE_GET_HANDLE_BY_PCI_BUS_ID = HLML_SUCCESS"
    by (simp_all add: lone_device_state_def concrete_defs)
  note two = hlml_device_get_handle_by_pci_bus_id_inverted
    [OF init(1) quiet(1), of sample_hlml_h "''0000:19:00.0''" None 1]
  note one = hlml_device_get_handle_by_pci_bus_id_inverted
    [OF init(2) quiet(2), of sample_hlml_h "''0000:19:00.0''" None 0]
  have "hlml_device_get_handle_by_pci_bus_id sample_hlml_h (Some ''0000:19:00.0'') (Some None)
       armed_state = (HLML_SUCCESS, Some (Some 1))"
    using two strncmp_same_address strncmp_other_address
    by (simp add: concrete_defs)
  moreover have "hlml_device_get_handle_by_pci_bus_id sample_hlml_h (Some ''0000:19:00.0'')
       (Some None) lone_device_state = (HLML_ERROR_NOT_FOUND, Some None)"
    using one strncmp_same_address
    by (simp add: lone_device_state_def concrete_defs)
  ultimately show ?thesis
    by (simp add: concrete_defs)
qed

text \<open>
  C4. Registration into an event set is idempotent: when a call of
  \<open>hlml_device_register_events\<close> has returned success, a second call with the same
  device and the same handle returns success again and leaves the state, and so the slot
  array, as the first call left it. When no error is injected and each of the eight slots
  holds a device other than the one given, the call returns invalid-argument and leaves
  the state unchanged.
\<close>

theorem hlml_device_register_events_idempotent:
  assumes "state_ok s"
  shows
    "(hlml_device_register_events dev event_types (Some a) s = Inr (HLML_SUCCESS, s1) \<longrightarrow>
        hlml_device_register_events dev event_types' (Some a) s1 = Inr (HLML_SUCCESS, s1)) \<and>
     (forced s FAKE_DEVICE_REGISTER_EVENTS = HLML_SUCCESS \<and>
      event_set_at s a = Inr event_set \<and>
      (\<forall>k < DEVICES_MAX. device_info (dev_events event_set ! k) \<noteq> None \<and>
                           device_info (dev_events event_set ! k) \<noteq> dev) \<longrightarrow>
        hlml_device_register_events dev event_types (Some a) s =
          Inr (HLML_ERROR_INVALID_ARGUMENT, s))"
proof (intro conjI impI)
  assume first: "hlml_device_register_events dev event_types (Some a) s = Inr (HLML_SUCCESS, s1)"
  then have quiet: "forced s FAKE_DEVICE_REGISTER_EVENTS = HLML_SUCCESS"
    by (auto simp: hlml_device_register_events_def Let_def split: if_splits)
  with first obtain event_set where live: "event_set_at s a = Inr event_set"
    by (cases "event_set_at s a") (auto simp: hlml_device_register_events_def)
  obtain i event_set' where loop: "register_events_loop dev event_set 0 = (i, event_set')"
    by (cases "register_events_loop dev event_set 0")
  from first quiet live loop have i: "i \<noteq> DEVICES_MAX"
    and s1: "s1 = s\<lparr>heap := (heap s)[a := Some event_set']\<rparr>"
    by (auto simp: hlml_device_register_events_def Let_def split: if_splits)
  from assms live have "length (dev_events event_set) = DEVICES_MAX"
    by (rule state_ok_event_set)
  with loop have again: "register_events_loop dev event_set' 0 = (i, event_set')"
    by (rule register_events_loop_again)
  from live have "event_set_at s1 a = Inr event_set'"
    by (simp add: s1 event_set_at_live)
  moreover from quiet have "forced s1 FAKE_DEVICE_REGISTER_EVENTS = HLML_SUCCESS"
    by (simp add: s1 forced_def)
  ultimately show "hlml_device_register_events dev event_types' (Some a) s1 = Inr (HLML_SUCCESS, s1)"
    using again i by (simp add: hlml_device_register_events_def s1 Let_def)
next
  assume full: "forced s FAKE_DEVICE_REGISTER_EVENTS = HLML_SUCCESS \<and>
      event_set_at s a = Inr event_set \<and>
      (\<forall>k < DEVICES_MAX. device_info (dev_events event_set ! k) \<noteq> None \<and>
                           device_info (dev_events event_set ! k) \<noteq> dev)"
  then have "register_events_loop dev event_set 0 = (DEVICES_MAX, event_set)"
    by (intro register_events_loop_full) simp_all
  moreover from full have "(heap s)[a := Some event_set] = heap s"
    by (simp add: event_set_at_live list_update_same_conv)
  ultimately show "hlml_device_register_events dev event_types (Some a) s =
          Inr (HLML_ERROR_INVALID_ARGUMENT, s)"
    using full by (simp add: hlml_device_register_events_def Let_def)
qed

text \<open>
  B is registered into the event set that holds A, then registered again; and a NULL
  device is registered into an event set whose eight slots are taken.
\<close>

theorem hlml_device_register_events_twice:
  "hlml_device_register_events (Some 1) 2 (Some 0) A_registered_state =
     Inr (HLML_SUCCESS, armed_state) \<and>
   hlml_device_register_events (Some 1) 2 (Some 0) armed_state = Inr (HLML_SUCCESS, armed_state) \<and>
   heap armed_state = [Some event_set_E] \<and>
   event_set_at full_set_state 0 = Inr full_event_set \<and>
   hlml_device_register_events None 2 (Some 0) full_set_state =
     Inr (HLML_ERROR_INVALID_ARGUMENT, full_set_state)"
proof -
  note again = hlml_device_register_events_idempotent
    [OF state_ok_A_registered, of "Some 1" 2 0 armed_state 2, THEN conjunct1, rule_format,
     OF register_B_first]
  have quiet: "forced full_set_state FAKE_DEVICE_REGISTER_EVENTS = HLML_SUCCESS"
    by (simp add: full_set_state_def concrete_defs)
  have live: "event_set_at full_set_state 0 = Inr full_event_set"
    by (simp add: full_set_state_def concrete_defs)
  have taken: "\<forall>k < DEVICES_MAX. device_info (dev_events full_event_set ! k) \<noteq> None \<and>
                           device_info (dev_events full_event_set ! k) \<noteq> None"
    by (simp add: full_event_set_def DEVICES_MAX_def All_less_Suc numeral_eq_Suc)
  note full = hlml_device_register_events_idempotent
    [OF state_ok_full_set, of None 2 0 _ 2 full_event_set, THEN conjunct2, rule_format,
     OF conjI [OF quiet conjI [OF live taken]]]
  show ?thesis
    using again full live register_B_first by (simp add: concrete_defs)
qed

text \<open>
  C5. The pending-event queue never holds more than eight entries. The queue is empty
  at the start; \<open>add_critical_event\<close> on a queue of eight entries returns the state
  it was given, contents and count alike, and reports nothing; on a queue within the
  bound it never faults; and every call of the library that returns takes a state with
  \<open>0 \<le> events_num \<le> 8\<close> to a state with \<open>0 \<le> events_num \<le> 8\<close>.
\<close>

theorem event_queue_bounded:
  "events_num_ok initial_state \<and>
   (events_num (flow_control s) = int FAKE_EVENTS_MAX \<longrightarrow> add_critical_event serial' s = Inr s) \<and>
   (events_num_ok s \<longrightarrow> (\<exists>s'. add_critical_event serial' s = Inr s')) \<and>
   (events_num_ok s \<longrightarrow> state_after h c s = Inr s' \<longrightarrow> events_num_ok s')"
  apply (intro conjI impI)
     apply (simp add: events_num_ok_def initial_state_def)
    apply (simp add: add_critical_event_def)
   apply (simp add: add_critical_event_def events_num_ok_def Let_def)
  apply (erule (1) state_after_events_num_ok)
  done

text \<open>
  A ninth event on a full queue is dropped; an event added to the drained queue of the
  run above gives a queue of one.
\<close>

theorem event_queue_drops_ninth:
  "events_num (flow_control full_queue_state) = int FAKE_EVENTS_MAX \<and>
   add_critical_event (Some ''S1'') full_queue_state = Inr full_queue_state \<and>
   events_num_ok (remove_tail_event armed_state) \<and>
   state_after sample_hlml_h (Call_add_critical_event (Some ''S2'')) (remove_tail_event armed_state) =
     Inr armed_state \<and>
   events_num_ok armed_state"
proof -
  have full: "events_num (flow_control full_queue_state) = int FAKE_EVENTS_MAX"
    by (simp add: full_queue_state_def concrete_defs)
  have ok: "events_num_ok (remove_tail_event armed_state)"
    by (simp add: events_num_ok_def remove_tail_event_def concrete_defs)
  have step: "state_after sample_hlml_h (Call_add_critical_event (Some ''S2''))
      (remove_tail_event armed_state) = Inr armed_state"
    by (simp add: add_critical_event_def remove_tail_event_def snprintf_s_def c_str_def NUL_def
        Let_def concrete_defs)
  note bounded = event_queue_bounded
    [of full_queue_state "Some ''S1''" sample_hlml_h "Call_add_critical_event (Some ''S2'')"
        armed_state]
  note kept = event_queue_bounded
    [of "remove_tail_event armed_state" "Some ''S2''" sample_hlml_h
        "Call_add_critical_event (Some ''S2'')" armed_state]
  show ?thesis
    using bounded kept full ok step by simp
qed

text \<open>
  C6. \<open>reset\<close> is idempotent, and from every state it leaves the device count at
  zero, the initialized flag cleared and the event queue empty; when the table has its
  fourteen entries, every one of them is success afterwards.
\<close>

theorem reset_idempotent_and_clears:
  "reset (reset s) = reset s \<and>
   devices_num (main_struct (reset s)) = 0 \<and>
   \<not> initialized (main_struct (reset s)) \<and>
   events_num (flow_control (reset s)) = 0 \<and>
   tail_event (reset s) = None \<and>
   (length (func_ret (flow_control s)) = FAKE_CALL_IDENTITY_MAX \<longrightarrow>
      func_ret (flow_control (reset s)) = replicate FAKE_CALL_IDENTITY_MAX HLML_SUCCESS \<and>
      (\<forall>call_id < FAKE_CALL_IDENTITY_MAX. forced (reset s) call_id = HLML_SUCCESS))"
proof -
  have "reset (reset s) = reset s"
    by (rule reset_idem)
  moreover have "devices_num (main_struct (reset s)) = 0"
    "\<not> initialized (main_struct (reset s))"
    "events_num (flow_control (reset s)) = 0"
    "tail_event (reset s) = None"
    by (simp_all add: reset_def tail_event_def Let_def)
  moreover have "func_ret (flow_control (reset s)) = replicate FAKE_CALL_IDENTITY_MAX HLML_SUCCESS"
    if "length (func_ret (flow_control s)) = FAKE_CALL_IDENTITY_MAX"
    using that by (simp add: reset_def Let_def reset_func_ret_fold)
  ultimately show ?thesis
    by (simp add: forced_def)
qed

text \<open>
  Reset of the state of the run above, which has two devices and one queued event.
\<close>

theorem reset_clears_armed_state:
  "length (func_ret (flow_control armed_state)) = FAKE_CALL_IDENTITY_MAX \<and>
   devices_num (main_struct armed_state) = 2 \<and>
   events_num (flow_control armed_state) = 1 \<and>
   reset (reset armed_state) = reset armed_state \<and>
   devices_num (main_struct (reset armed_state)) = 0 \<and>
   \<not> initialized (main_struct (reset armed_state)) \<and>
   events_num (flow_control (reset armed_state)) = 0 \<and>
   func_ret (flow_control (reset armed_state)) = replicate FAKE_CALL_IDENTITY_MAX HLML_SUCCESS \<and>
   forced (reset armed_state) FAKE_EVENT_SET_WAIT = HLML_SUCCESS"
proof -
  have len: "length (func_ret (flow_control armed_state)) = FAKE_CALL_IDENTITY_MAX"
    by (simp add: concrete_defs)
  have id: "FAKE_EVENT_SET_WAIT < FAKE_CALL_IDENTITY_MAX"
    by (simp add: concrete_defs)
  have before: "devices_num (main_struct armed_state) = 2"
    "events_num (flow_control armed_state) = 1"
    by (simp_all add: concrete_defs)
  show ?thesis
    using reset_idempotent_and_clears [of armed_state] len id before by simp
qed

text \<open>
  C7. The claim as stated fails: a registered device whose index is not below the
  device count is not found by its index, and of two devices with one index the lookup
  finds the first. With one device of index 5 registered and the library initialized,
  the lookup of index 5 reports invalid-argument; with A and B both of index 0, the
  lookup of the index of B returns A.
\<close>

theorem hlml_device_get_handle_by_index_rejects_registered:
  "run_calls sample_hlml_h lone_device_calls initial_state = Inr lone_device_state \<and>
   devices_num (main_struct lone_device_state) = 1 \<and>
   index (devices_info (main_struct lone_device_state) ! 0) = 5 \<and>
   initialized (main_struct lone_device_state) \<and>
   forced lone_device_state FAKE_DEVICE_GET_HANDLE_BY_INDEX = HLML_SUCCESS \<and>
   hlml_device_get_handle_by_index 5 (Some None) lone_device_state =
     (HLML_ERROR_INVALID_ARGUMENT, Some None) \<and>
   devices_num (main_struct shared_index_state) = 2 \<and>
   index (devices_info (main_struct shared_index_state) ! 1) = 0 \<and>
   initialized (main_struct shared_index_state) \<and>
   forced shared_index_state FAKE_DEVICE_GET_HANDLE_BY_INDEX = HLML_SUCCESS \<and>
   hlml_device_get_handle_by_index 0 (Some None) shared_index_state =
     (HLML_SUCCESS, Some (Some 0))"
  by (simp add: lone_device_state_reached)
     (simp add: lone_device_state_def shared_index_state_def hlml_device_get_handle_by_index_def
        index_loop.simps concrete_defs)

text \<open>
  C7, amended. In an initialized state with no error injected, the lookup by index
  returns the handle of a registered device when that device's index is below the
  device count and no device registered before it has the same index; for every index
  from the device count up to \<open>2 ^ 31 - 1\<close>, and for a NULL output pointer, it
  reports invalid-argument.
\<close>

theorem hlml_device_get_handle_by_index_in_range:
  assumes "state_ok s"
    and "initialized (main_struct s)"
    and "forced s FAKE_DEVICE_GET_HANDLE_BY_INDEX = HLML_SUCCESS"
  shows
    "(int k < devices_num (main_struct s) \<and>
      uint (index (devices_info (main_struct s) ! k)) < devices_num (main_struct s) \<and>
      (\<forall>j < k. index (devices_info (main_struct s) ! j) \<noteq> index (devices_info (main_struct s) ! k))
        \<longrightarrow> hlml_device_get_handle_by_index (index (devices_info (main_struct s) ! k)) (Some old) s =
              (HLML_SUCCESS, Some (Some k))) \<and>
     (devices_num (main_struct s) \<le> uint i \<and> uint i < 2 ^ 31
        \<longrightarrow> hlml_device_get_handle_by_index i device' s = (HLML_ERROR_INVALID_ARGUMENT, device')) \<and>
     hlml_device_get_handle_by_index i None s = (HLML_ERROR_INVALID_ARGUMENT, None)"
proof (intro conjI impI)
  assume k: "int k < devices_num (main_struct s) \<and>
      uint (index (devices_info (main_struct s) ! k)) < devices_num (main_struct s) \<and>
      (\<forall>j < k. index (devices_info (main_struct s) ! j) \<noteq> index (devices_info (main_struct s) ! k))"
  let ?i = "index (devices_info (main_struct s) ! k)"
  from assms(1) have "devices_num (main_struct s) \<le> 8"
    by (simp add: state_ok_def DEVICES_MAX_def)
  with k have "uint ?i < 2 ^ 31" by simp
  then have "sint ?i = uint ?i" by (rule sint_eq_uint_small)
  with k have in_range: "\<not> sint ?i \<ge> devices_num (main_struct s)" by simp
  from k have "index_loop ?i (main_struct s) 0 = Some k"
    by (simp add: index_loop_Some)
  with assms in_range show "hlml_device_get_handle_by_index ?i (Some old) s =
              (HLML_SUCCESS, Some (Some k))"
    by (simp add: hlml_device_get_handle_by_index_def)
next
  assume "devices_num (main_struct s) \<le> uint i \<and> uint i < 2 ^ 31"
  then have "sint i \<ge> devices_num (main_struct s)"
    by (simp add: sint_eq_uint_small)
  with assms show "hlml_device_get_handle_by_index i device' s = (HLML_ERROR_INVALID_ARGUMENT, device')"
    by (simp add: hlml_device_get_handle_by_index_def)
next
  from assms show "hlml_device_get_handle_by_index i None s = (HLML_ERROR_INVALID_ARGUMENT, None)"
    by (simp add: hlml_device_get_handle_by_index_def)
qed

text \<open>
  In the run above index 1 finds B, index 2 is out of range, and a NULL output pointer
  is refused.
\<close>

theorem hlml_device_get_handle_by_index_finds_B:
  "hlml_device_get_handle_by_index 1 (Some None) armed_state = (HLML_SUCCESS, Some (Some 1)) \<and>
   index (devices_info (main_struct armed_state) ! 1) = 1 \<and>
   devices_num (main_struct armed_state) = 2 \<and>
   hlml_device_get_handle_by_index 2 (Some None) armed_state =
     (HLML_ERROR_INVALID_ARGUMENT, Some None) \<and>
   hlml_device_get_handle_by_index 0 None armed_state = (HLML_ERROR_INVALID_ARGUMENT, None)"
proof -
  have init: "initialized (main_struct armed_state)"
    by (simp add: concrete_defs)
  have quiet: "forced armed_state FAKE_DEVICE_GET_HANDLE_BY_INDEX = HLML_SUCCESS"
    by (simp add: concrete_defs)
  note found = hlml_device_get_handle_by_index_in_range
    [OF state_ok_armed init quiet, of 1 None 2 "Some None"]
  note null = hlml_device_get_handle_by_index_in_range
    [OF state_ok_armed init quiet, of 1 None 0 None]
  show ?thesis
    using found null by (simp add: concrete_defs)
qed

text \<open>
  C8. The claim fails for a buffer length of \<open>2 ^ 31\<close> or more: the C code compares
  \<open>(int)length\<close>, which is negative there, with 64, and reports insufficient-size
  for a buffer that is large enough. With device B and a buffer of length \<open>2 ^ 31\<close>
  the serial is not copied.
\<close>

theorem hlml_device_get_serial_rejects_huge_buffer:
  "\<not> unat (0x80000000 :: 32 word) < SERIAL_MAX \<and>
   forced armed_state FAKE_DEVICE_GET_SERIAL = HLML_SUCCESS \<and>
   serial (devices_info (main_struct armed_state) ! 1) = ''S2'' \<and>
   hlml_device_get_serial (Some 1) (Some ''old'') 0x80000000 armed_state =
     Inr (HLML_ERROR_INSUFFICIENT_SIZE, Some ''old'')"
  by (simp add: hlml_device_get_serial_def concrete_defs)

text \<open>
  C9. For a call identity below \<open>FAKE_CALL_IDENTITY_MAX\<close> the assertion of
  \<open>set_error\<close> holds and the call returns a state: nothing but the table has changed,
  the entry of that identity holds the given status (the table having its fourteen
  entries) and every other entry reads as before. For any other identity the assertion
  fails, which is fatal.
\<close>

theorem set_error_overwrites_one_entry:
  "(call_id < FAKE_CALL_IDENTITY_MAX \<longrightarrow>
      (\<exists>s'. set_error call_id errCode s = Inr s' \<and>
            main_struct s' = main_struct s \<and> heap s' = heap s \<and>
            events (flow_control s') = events (flow_control s) \<and>
            events_num (flow_control s') = events_num (flow_control s) \<and>
            length (func_ret (flow_control s')) = length (func_ret (flow_control s)) \<and>
            (length (func_ret (flow_control s)) = FAKE_CALL_IDENTITY_MAX \<longrightarrow>
               forced s' call_id = errCode) \<and>
            (\<forall>other. other \<noteq> call_id \<longrightarrow> forced s' other = forced s other))) \<and>
   (\<not> call_id < FAKE_CALL_IDENTITY_MAX \<longrightarrow> set_error call_id errCode s = Inl Assertion_failed)"
  by (simp add: set_error_def forced_def)

text \<open>
  Forcing a timeout for the wait operation in the run above leaves the entry of
  \<open>hlml_init\<close> alone; the identity \<open>FAKE_CALL_IDENTITY_MAX\<close> itself is refused.
\<close>

theorem set_error_forces_wait_timeout:
  "FAKE_EVENT_SET_WAIT < FAKE_CALL_IDENTITY_MAX \<and>
   length (func_ret (flow_control armed_state)) = FAKE_CALL_IDENTITY_MAX \<and>
   (\<exists>s'. set_error FAKE_EVENT_SET_WAIT HLML_ERROR_TIMEOUT armed_state = Inr s' \<and>
         forced s' FAKE_EVENT_SET_WAIT = HLML_ERROR_TIMEOUT \<and>
         forced s' FAKE_INIT = forced armed_state FAKE_INIT \<and>
         main_struct s' = main_struct armed_state) \<and>
   set_error FAKE_CALL_IDENTITY_MAX HLML_ERROR_TIMEOUT armed_state = Inl Assertion_failed"
proof -
  have id: "FAKE_EVENT_SET_WAIT < FAKE_CALL_IDENTITY_MAX"
    and other: "FAKE_INIT \<noteq> FAKE_EVENT_SET_WAIT"
    and len: "length (func_ret (flow_control armed_state)) = FAKE_CALL_IDENTITY_MAX"
    by (simp_all add: concrete_defs)
  from set_error_overwrites_one_entry [of FAKE_EVENT_SET_WAIT HLML_ERROR_TIMEOUT armed_state] id len
  obtain s' where "set_error FAKE_EVENT_SET_WAIT HLML_ERROR_TIMEOUT armed_state = Inr s'"
    and "forced s' FAKE_EVENT_SET_WAIT = HLML_ERROR_TIMEOUT"
    and "\<forall>other. other \<noteq> FAKE_EVENT_SET_WAIT \<longrightarrow> forced s' other = forced armed_state other"
    and "main_struct s' = main_struct armed_state"
    by auto
  with other have "\<exists>s'. set_error FAKE_EVENT_SET_WAIT HLML_ERROR_TIMEOUT armed_state = Inr s' \<and>
         forced s' FAKE_EVENT_SET_WAIT = HLML_ERROR_TIMEOUT \<and>
         forced s' FAKE_INIT = forced armed_state FAKE_INIT \<and>
         main_struct s' = main_struct armed_state"
    by auto
  moreover have "set_error FAKE_CALL_IDENTITY_MAX HLML_ERROR_TIMEOUT armed_state = Inl Assertion_failed"
    using set_error_overwrites_one_entry [of FAKE_CALL_IDENTITY_MAX HLML_ERROR_TIMEOUT armed_state]
    by simp
  ultimately show ?thesis
    using id len by simp
qed

text \<open>
  C10. \<open>hlml_device_get_count\<close> does not look at the initialized flag: in every
  state, with no error injected for it and an output pointer that is not NULL, it
  returns success and writes the device count (read as an unsigned integer it is the
  count of a well-formed state), so its status is never uninitialized; the two lookups,
  with no error injected for them, report uninitialized when the flag is not set.
\<close>

theorem hlml_device_get_count_needs_no_init:
  assumes "forced s FAKE_DEVICE_GET_COUNT = HLML_SUCCESS"
  shows "hlml_device_get_count (Some old) s =
           (HLML_SUCCESS, Some (word_of_int (devices_num (main_struct s)))) \<and>
         (state_ok s \<longrightarrow>
            uint (word_of_int (devices_num (main_struct s)) :: 32 word) =
              devices_num (main_struct s)) \<and>
         fst (hlml_device_get_count (Some old) s) \<noteq> HLML_ERROR_UNINITIALIZED \<and>
         (\<not> initialized (main_struct s) \<and>
          forced s FAKE_DEVICE_GET_HANDLE_BY_INDEX = HLML_SUCCESS \<longrightarrow>
            fst (hlml_device_get_handle_by_index index' device' s) = HLML_ERROR_UNINITIALIZED) \<and>
         (\<not> initialized (main_struct s) \<and>
          forced s FAKE_DEVICE_GET_HANDLE_BY_PCI_BUS_ID = HLML_SUCCESS \<longrightarrow>
            fst (hlml_device_get_handle_by_pci_bus_id h pci_addr' device' s) =
              HLML_ERROR_UNINITIALIZED)"
  using assms
  by (simp add: hlml_device_get_count_def hlml_device_get_handle_by_index_def
      hlml_device_get_handle_by_pci_bus_id_def uint_devices_num)

text \<open>
  After a shutdown of the run above the count is still 2 and both lookups report
  uninitialized.
\<close>

theorem hlml_device_get_count_after_shutdown:
  "\<not> initialized (main_struct (snd (hlml_shutdown armed_state))) \<and>
   hlml_device_get_count (Some 0) (snd (hlml_shutdown armed_state)) = (HLML_SUCCESS, Some 2) \<and>
   hlml_device_get_handle_by_index 0 (Some None) (snd (hlml_shutdown armed_state)) =
     (HLML_ERROR_UNINITIALIZED, Some None) \<and>
   hlml_device_get_handle_by_pci_bus_id sample_hlml_h (Some ''0000:19:00.0'') (Some None)
       (snd (hlml_shutdown armed_state)) = (HLML_ERROR_UNINITIALIZED, Some None)"
proof -
  let ?s = "snd (hlml_shutdown armed_state)"
  have down: "\<not> initialized (main_struct ?s)"
    by (simp add: hlml_shutdown_def concrete_defs)
  have quiet: "forced ?s FAKE_DEVICE_GET_COUNT = HLML_SUCCESS"
    "forced ?s FAKE_DEVICE_GET_HANDLE_BY_INDEX = HLML_SUCCESS"
    "forced ?s FAKE_DEVICE_GET_HANDLE_BY_PCI_BUS_ID = HLML_SUCCESS"
    by (simp_all add: hlml_shutdown_def concrete_defs)
  have count: "devices_num (main_struct ?s) = 2"
    by (simp add: hlml_shutdown_def concrete_defs)
  note inst = hlml_device_get_count_needs_no_init
    [OF quiet(1), of 0 0 "Some None" sample_hlml_h "Some ''0000:19:00.0''"]
  from inst down quiet count
  have "hlml_device_get_count (Some 0) ?s = (HLML_SUCCESS, Some 2)"
    and "fst (hlml_device_get_handle_by_index 0 (Some None) ?s) = HLML_ERROR_UNINITIALIZED"
    and "fst (hlml_device_get_handle_by_pci_bus_id sample_hlml_h (Some ''0000:19:00.0'')
           (Some None) ?s) = HLML_ERROR_UNINITIALIZED"
    by simp_all
  moreover have "snd (hlml_device_get_handle_by_index 0 (Some None) ?s) = Some None"
    "snd (hlml_device_get_handle_by_pci_bus_id sample_hlml_h (Some ''0000:19:00.0'')
           (Some None) ?s) = Some None"
    using down quiet
    by (simp_all add: hlml_device_get_handle_by_index_def hlml_device_get_handle_by_pci_bus_id_def)
  ultimately show ?thesis
    using down by (simp add: prod_eq_iff)
qed

section \<open>Further properties\<close>

text \<open>
  The twelve entry points that read the error-injection table return a forced status
  at once: the state is as it was, an output parameter keeps its value, and the serial
  buffer is set to the empty string.
\<close>

theorem injected_error_short_circuits:
  assumes "S \<noteq> HLML_SUCCESS"
  shows
    "(forced s FAKE_INIT = S \<longrightarrow> hlml_init s = (S, s)) \<and>
     (forced s FAKE_INIT_WITH_FLAGS = S \<longrightarrow> hlml_init_with_flags flags s = (S, s)) \<and>
     (forced s FAKE_SHUTDOWN = S \<longrightarrow> hlml_shutdown s = (S, s)) \<and>
     (forced s FAKE_DEVICE_GET_COUNT = S \<longrightarrow>
        hlml_device_get_count device_count s = (S, device_count)) \<and>
     (forced s FAKE_DEVICE_GET_HANDLE_BY_PCI_BUS_ID = S \<longrightarrow>
        hlml_device_get_handle_by_pci_bus_id h pci_addr' device' s = (S, device')) \<and>
     (forced s FAKE_DEVICE_GET_HANDLE_BY_INDEX = S \<longrightarrow>
        hlml_device_get_handle_by_index index' device' s = (S, device')) \<and>
     (forced s FAKE_DEVICE_GET_PCI_INFO = S \<longrightarrow>
        hlml_device_get_pci_info h dev pci s = Inr (S, pci)) \<and>
     (forced s FAKE_DEVICE_GET_SERIAL = S \<and> 0 < length' \<longrightarrow>
        hlml_device_get_serial dev (Some buf) length' s = Inr (S, Some [])) \<and>
     (forced s FAKE_DEVICE_REGISTER_EVENTS = S \<longrightarrow>
        hlml_device_register_events dev event_types set' s = Inr (S, s)) \<and>
     (forced s FAKE_EVENT_SET_CREATE = S \<longrightarrow>
        hlml_event_set_create available new_set s = (S, new_set, s)) \<and>
     (forced s FAKE_EVENT_SET_FREE = S \<longrightarrow> hlml_event_set_free set' s = Inr (S, s)) \<and>
     (forced s FAKE_EVENT_SET_WAIT = S \<longrightarrow>
        hlml_event_set_wait h set' data timeoutms s = Inr (S, data, s))"
  using assms
  by (simp add: hlml_init_def hlml_init_with_flags_def hlml_shutdown_def
      hlml_device_get_count_def hlml_device_get_handle_by_pci_bus_id_def
      hlml_device_get_handle_by_index_def hlml_device_get_pci_info_def
      hlml_device_get_serial_def hlml_device_register_events_def hlml_event_set_create_def
      hlml_event_set_free_def hlml_event_set_wait_def)

text \<open>
  With an error forced for \<open>hlml_init\<close> the library stays uninitialized.
\<close>

theorem injected_error_blocks_init:
  "HLML_ERROR_MEMORY \<noteq> HLML_SUCCESS \<and>
   (\<exists>s. set_error FAKE_INIT HLML_ERROR_MEMORY initial_state = Inr s \<and>
        forced s FAKE_INIT = HLML_ERROR_MEMORY \<and>
        hlml_init s = (HLML_ERROR_MEMORY, s) \<and>
        \<not> initialized (main_struct s))"
proof -
  obtain s where s: "set_error FAKE_INIT HLML_ERROR_MEMORY initial_state = Inr s"
    and f: "forced s FAKE_INIT = HLML_ERROR_MEMORY"
    and i: "\<not> initialized (main_struct s)"
    by (simp add: set_error_def initial_state_def forced_def call_identity_defs)
  have ne: "HLML_ERROR_MEMORY \<noteq> HLML_SUCCESS" by simp
  from injected_error_short_circuits [OF ne, of s] f
  have "hlml_init s = (HLML_ERROR_MEMORY, s)" by simp
  with s f i show ?thesis by auto
qed

text \<open>
  For a buffer length below \<open>2 ^ 31\<close>, \<open>hlml_device_get_serial\<close> behaves as
  described: a forced status blanks the buffer; a NULL device gives success and the
  empty string; a length below 64 gives insufficient-size and leaves the buffer; otherwise
  the serial of the device is copied.
\<close>

theorem hlml_device_get_serial_below_2_31:
  assumes "0 < length'" and "uint length' < 2 ^ 31"
  shows
    "(forced s FAKE_DEVICE_GET_SERIAL \<noteq> HLML_SUCCESS \<longrightarrow>
        hlml_device_get_serial dev (Some buf) length' s =
          Inr (forced s FAKE_DEVICE_GET_SERIAL, Some [])) \<and>
     (forced s FAKE_DEVICE_GET_SERIAL = HLML_SUCCESS \<longrightarrow>
        hlml_device_get_serial None (Some buf) length' s = Inr (HLML_SUCCESS, Some [])) \<and>
     (forced s FAKE_DEVICE_GET_SERIAL = HLML_SUCCESS \<and> unat length' < SERIAL_MAX \<longrightarrow>
        hlml_device_get_serial (Some d) (Some buf) length' s =
          Inr (HLML_ERROR_INSUFFICIENT_SIZE, Some buf)) \<and>
     (forced s FAKE_DEVICE_GET_SERIAL = HLML_SUCCESS \<and> \<not> unat length' < SERIAL_MAX \<and>
      d < DEVICES_MAX \<and> length (c_str (serial (devices_info (main_struct s) ! d))) < SERIAL_MAX \<longrightarrow>
        hlml_device_get_serial (Some d) (Some buf) length' s =
          Inr (HLML_SUCCESS, Some (c_str (serial (devices_info (main_struct s) ! d)))))"
proof -
  from assms(2) have "sint length' = int (unat length')"
    by (simp add: sint_eq_uint_small)
  then have cast: "sint length' < int SERIAL_MAX \<longleftrightarrow> unat length' < SERIAL_MAX"
    by (simp only: of_nat_less_iff)
  from assms(1) have pos: "0 < unat length'"
    by (simp add: word_less_nat_alt)
  show ?thesis
    using assms(1) pos by (auto simp: hlml_device_get_serial_def cast strncpy_def)
qed

text \<open>
  The serial of B is copied into a buffer of 64 bytes and refused for one of 63.
\<close>

theorem hlml_device_get_serial_copies_S2:
  "hlml_device_get_serial (Some 1) (Some ''old'') 64 armed_state = Inr (HLML_SUCCESS, Some ''S2'') \<and>
   hlml_device_get_serial (Some 1) (Some ''old'') 63 armed_state =
     Inr (HLML_ERROR_INSUFFICIENT_SIZE, Some ''old'') \<and>
   hlml_device_get_serial None (Some ''old'') 64 armed_state = Inr (HLML_SUCCESS, Some [])"
proof -
  have quiet: "forced armed_state FAKE_DEVICE_GET_SERIAL = HLML_SUCCESS"
    by (simp add: concrete_defs)
  have s2: "c_str (serial (devices_info (main_struct armed_state) ! 1)) = ''S2''"
    by (simp add: c_str_def NUL_def concrete_defs)
  have l64: "(0 :: 32 word) < 64" "uint (64 :: 32 word) < 2 ^ 31" "\<not> unat (64 :: 32 word) < SERIAL_MAX"
    and l63: "(0 :: 32 word) < 63" "uint (63 :: 32 word) < 2 ^ 31" "unat (63 :: 32 word) < SERIAL_MAX"
    by (simp_all add: SERIAL_MAX_def)
  note big = hlml_device_get_serial_below_2_31 [OF l64(1,2), of armed_state "Some 1" "''old''" 1]
  note small = hlml_device_get_serial_below_2_31 [OF l63(1,2), of armed_state "Some 1" "''old''" 1]
  show ?thesis
    using big small quiet l64(3) l63(3) s2 by (simp add: SERIAL_MAX_def DEVICES_MAX_def)
qed

text \<open>
  The sizes of the arrays and the bounds of the two counters hold at the start and are
  kept by every call that returns.
\<close>

theorem state_ok_invariant:
  "state_ok initial_state \<and>
   (state_ok s \<and> state_after h c s = Inr s' \<longrightarrow> state_ok s')"
proof (intro conjI impI)
  show "state_ok initial_state" by (rule state_ok_initial)
next
  assume "state_ok s \<and> state_after h c s = Inr s'"
  then have ok: "state_ok s" and step: "state_after h c s = Inr s'" by simp_all
  show "state_ok s'"
  proof (cases c)
    case (Call_add_device a b c d e)
    with ok step show ?thesis by (auto dest: state_ok_add_device)
  next
    case Call_reset
    with ok step show ?thesis by (auto dest: state_ok_reset)
  next
    case (Call_add_critical_event x)
    with ok step show ?thesis by (auto dest: state_ok_add_critical_event)
  next
    case Call_reset_events
    with ok step show ?thesis by (auto simp: reset_events_def state_ok_def)
  next
    case (Call_set_error a b)
    with ok step show ?thesis by (auto simp: set_error_def state_ok_def split: if_splits)
  next
    case Call_hlml_init
    with ok step show ?thesis
      by (auto simp: hlml_init_def hlml_init_with_flags_def state_ok_def split: if_splits)
  next
    case (Call_hlml_init_with_flags x)
    with ok step show ?thesis
      by (auto simp: hlml_init_with_flags_def state_ok_def split: if_splits)
  next
    case Call_hlml_shutdown
    with ok step show ?thesis by (auto simp: hlml_shutdown_def state_ok_def split: if_splits)
  next
    case (Call_hlml_device_get_pci_info a b)
    with ok step show ?thesis by (auto split: sum.splits)
  next
    case (Call_hlml_device_register_events a b c)
    with ok step show ?thesis
      by (cases "hlml_device_register_events a b c s") (auto dest: state_ok_register_events)
  next
    case (Call_hlml_event_set_create a b)
    with ok step show ?thesis
      by (auto simp: hlml_event_set_create_def calloc_event_set_def state_ok_def
          event_set_ok_def split: if_splits)
  next
    case (Call_hlml_event_set_free a)
    with ok step show ?thesis
      by (auto simp: hlml_event_set_free_def state_ok_def event_set_ok_def
          list_all_heap_update split: if_splits option.splits sum.splits)
  next
    case (Call_hlml_event_set_wait a b c)
    with ok step show ?thesis
      by (cases "hlml_event_set_wait h a b c s") (auto dest: state_ok_event_set_wait)
  next
    case (Call_hlml_device_get_serial a b c)
    with ok step show ?thesis by (auto split: sum.splits)
  qed (use ok step in auto)
qed

text \<open>
  The run above goes through well-formed states only.
\<close>

theorem state_ok_after_registration:
  "state_ok A_registered_state \<and>
   state_after sample_hlml_h (Call_hlml_device_register_events (Some 1) 2 (Some 0))
       A_registered_state = Inr armed_state \<and>
   state_ok armed_state"
proof -
  have step: "state_after sample_hlml_h (Call_hlml_device_register_events (Some 1) 2 (Some 0))
       A_registered_state = Inr armed_state"
    using register_B_first by simp
  from state_ok_invariant
    [of A_registered_state sample_hlml_h
        "Call_hlml_device_register_events (Some 1) 2 (Some 0)" armed_state]
    state_ok_A_registered step
  show ?thesis by simp
qed

end
